theory Spec2Isabelle
  imports Complex_Main "HOL-Library.Word"
begin

section \<open>Values, tokens and errors\<close>

text \<open>
  The values that reach the engine from a caller: Python ints (unbounded), floats, strings
  and \<open>None\<close>. A float is represented by the real number it denotes; the conversion of
  an int to a float rounds and can overflow, and is modelled as such below. A Python
  \<open>bool\<close> is an instance of \<open>int\<close> and is represented by \<open>PInt 0\<close> or \<open>PInt 1\<close>.
\<close>

datatype pyval = PNone | PInt int | PFloat real | PStr string

text \<open>
  The elements of a generated passphrase or password: a word of the wordlist (or a
  single character of a password, a string of length one), or a number.
\<close>

datatype token = Word string | Num int

text \<open>
  \<open>TypeError\<close> and \<open>ValueError\<close> are the exceptions the class raises itself, with their
  messages; \<open>OverflowError\<close> is the exception of Python's \<open>float\<close> on an int beyond the
  range of a double. The other three are the failures of the helper modules as the
  specification names them.
\<close>

datatype error =
    TypeError string
  | ValueError string
  | OverflowError string
  | InvalidRange
  | EmptyAlphabet
  | DegenerateAlphabet

section \<open>The secure random source\<close>

text \<open>
  Modelled from the spec: the module \<open>secrets\<close> is not among the sources; this section
  follows the specification of its component SecureRandom. The operating system's
  entropy source is an unbounded supply of bytes. It is modelled by the infinite sequence
  of bytes it will deliver together with the number of bytes already consumed; no byte
  is delivered twice.
\<close>

type_synonym byte = "8 word"

record urandom =
  bytes :: "nat \<Rightarrow> byte"
  consumed :: nat

definition read_bytes :: "urandom \<Rightarrow> nat \<Rightarrow> byte list" where
  "read_bytes u k = map (bytes u) [consumed u ..< consumed u + k]"

definition advance :: "urandom \<Rightarrow> nat \<Rightarrow> urandom" where
  "advance u k = u\<lparr>consumed := consumed u + k\<rparr>"

text \<open>The unsigned integer denoted by a block of bytes, most significant byte first.\<close>

definition from_bytes :: "byte list \<Rightarrow> nat" where
  "from_bytes bs = foldl (\<lambda>a b. a * 256 + unat b) 0 bs"

text \<open>Python's \<open>int.bit_length\<close> on a natural number.\<close>

fun bit_length :: "nat \<Rightarrow> nat" where
  "bit_length n = (if n = 0 then 0 else Suc (bit_length (n div 2)))"

declare bit_length.simps [simp del]

text \<open>The bit length rounded up to a byte boundary, in bytes.\<close>

definition nbytes :: "nat \<Rightarrow> nat" where
  "nbytes n = (bit_length n + 7) div 8"

text \<open>The value of a block of bytes once the bits above the bit length of \<open>n\<close> are masked off.\<close>

definition masked :: "nat \<Rightarrow> byte list \<Rightarrow> nat" where
  "masked n bs = take_bit (bit_length n) (from_bytes bs)"

text \<open>
  Modelled from the spec: \<open>secrets.random_below\<close> is not among the sources. The
  specification gives its design: read the minimum number of random bytes needed to cover
  \<open>n\<close>, mask off the excess high bits, and reject and retry if the masked value is at least
  \<open>n\<close>. The loop has no bound, so the function is partial: \<open>None\<close> stands for a run that
  never returns.
\<close>

partial_function (option) random_below :: "nat \<Rightarrow> urandom \<Rightarrow> (nat \<times> urandom) option" where
  "random_below n u =
     (if masked n (read_bytes u (nbytes n)) < n
      then Some (masked n (read_bytes u (nbytes n)), advance u (nbytes n))
      else random_below n (advance u (nbytes n)))"

text \<open>
  Modelled from the spec: \<open>secrets.randbetween\<close> is not among the sources. It requires
  \<open>max \<ge> min \<ge> 0\<close>, fails with \<open>InvalidRange\<close> otherwise, and equals
  \<open>min + random_below (max - min + 1)\<close>.
\<close>

definition randbetween :: "int \<Rightarrow> int \<Rightarrow> urandom \<Rightarrow> ((error + int) \<times> urandom) option" where
  "randbetween lo hi u =
     (if \<not> (hi \<ge> lo \<and> lo \<ge> 0) then Some (Inl InvalidRange, u)
      else case random_below (nat (hi - lo + 1)) u of
             None \<Rightarrow> None
           | Some (v, u') \<Rightarrow> Some (Inr (lo + int v), u'))"

text \<open>
  Modelled from the spec: \<open>secrets.randchoice\<close> is not among the sources. It fails with
  \<open>EmptyAlphabet\<close> on an empty sequence and equals \<open>seq[random_below(len(seq))]\<close>.
\<close>

definition randchoice :: "'a list \<Rightarrow> urandom \<Rightarrow> ((error + 'a) \<times> urandom) option" where
  "randchoice seq u =
     (if seq = [] then Some (Inl EmptyAlphabet, u)
      else case random_below (length seq) u of
             None \<Rightarrow> None
           | Some (v, u') \<Rightarrow> Some (Inr (seq ! v), u'))"

section \<open>Settings\<close>

text \<open>
  Modelled from the spec: the module \<open>settings\<close> is not among the sources. The
  specification gives the default numeric range \<open>(0, 10000)\<close> and the default entropy
  target of 77 bits.
\<close>

definition MIN_NUM :: int where
  "MIN_NUM = 0"

definition MAX_NUM :: int where
  "MAX_NUM = 10000"

definition ENTROPY_BITS_MIN :: real where
  "ENTROPY_BITS_MIN = 77"

section \<open>The class \<open>Passphrase\<close>\<close>

text \<open>
  The attributes of an instance. \<open>last_result\<close> is a public attribute which the string
  conversion tests against \<open>None\<close>, hence the option. The field holding the entropy target
  is a float.
\<close>

record passphrase =
  passwordlen :: int
  amount_n :: int
  amount_w :: int
  last_result :: "token list option"
  randnum_min :: int
  randnum_max :: int
  entropy_bits_req :: real
  wordlist :: "string list"
  wordlist_entropy_bits :: real
  external_wordlist :: bool
  separator :: string

text \<open>
  The constructor without an input file: the class defaults, and the wordlist and its
  precomputed entropy taken from the bundled resource.
\<close>

definition init_default :: "string list \<Rightarrow> real \<Rightarrow> passphrase" where
  "init_default words ebits =
     \<lparr> passwordlen = 12, amount_n = 0, amount_w = 6, last_result = Some [],
       randnum_min = MIN_NUM, randnum_max = MAX_NUM, entropy_bits_req = ENTROPY_BITS_MIN,
       wordlist = words, wordlist_entropy_bits = ebits, external_wordlist = False,
       separator = '' '' \<rparr>"

subsection \<open>Generation\<close>

text \<open>
  The loop \<open>for _ in range(0, k): passphrase.append(draw())\<close>: the list built so far is
  the accumulator, an exception of a draw leaves the loop, and a draw that never returns
  keeps the loop from returning.
\<close>

fun append_draws ::
  "nat \<Rightarrow> (urandom \<Rightarrow> ((error + token) \<times> urandom) option) \<Rightarrow> token list \<Rightarrow> urandom
     \<Rightarrow> ((error + token list) \<times> urandom) option" where
  "append_draws 0 draw acc u = Some (Inr acc, u)"
| "append_draws (Suc k) draw acc u =
     (case draw u of
        None \<Rightarrow> None
      | Some (Inl e, u') \<Rightarrow> Some (Inl e, u')
      | Some (Inr t, u') \<Rightarrow> append_draws k draw (acc @ [t]) u')"

text \<open>A draw of one word of the list, and a draw of one number, as tokens.\<close>

definition draw_word :: "string list \<Rightarrow> urandom \<Rightarrow> ((error + token) \<times> urandom) option" where
  "draw_word seq u = map_option (\<lambda>(r, u'). (map_sum id Word r, u')) (randchoice seq u)"

definition draw_number :: "int \<Rightarrow> int \<Rightarrow> urandom \<Rightarrow> ((error + token) \<times> urandom) option" where
  "draw_number lo hi u = map_option (\<lambda>(r, u'). (map_sum id Num r, u')) (randbetween lo hi u)"

text \<open>
  \<open>Passphrase.generate\<close>. The result is the value returned or the exception raised, the
  instance after the call and the random source after the call; \<open>None\<close> when the call
  never returns.
\<close>

definition generate ::
  "passphrase \<Rightarrow> urandom \<Rightarrow> ((error + token list) \<times> passphrase \<times> urandom) option" where
  "generate self u =
     (if length (wordlist self) < 1
      then Some (Inl (ValueError (''wordlist can'' @ [CHR 0x27] @ ''t be empty'')), self, u)
      else case append_draws (nat (amount_w self)) (draw_word (wordlist self)) [] u of
             None \<Rightarrow> None
           | Some (Inl e, u1) \<Rightarrow> Some (Inl e, self, u1)
           | Some (Inr ws, u1) \<Rightarrow>
               (case append_draws (nat (amount_n self)) (draw_number MIN_NUM MAX_NUM) ws u1 of
                  None \<Rightarrow> None
                | Some (Inl e, u2) \<Rightarrow> Some (Inl e, self, u2)
                | Some (Inr res, u2) \<Rightarrow> Some (Inr res, self\<lparr>last_result := Some res\<rparr>, u2)))"

text \<open>
  \<open>Passphrase.generate_password\<close>. The alphabet is \<open>digits + ascii_letters + punctuation\<close>
  of Python's module \<open>string\<close>, turned into a list of one-character strings.
\<close>

definition digits :: string where
  "digits = ''0123456789''"

definition ascii_lowercase :: string where
  "ascii_lowercase = ''abcdefghijklmnopqrstuvwxyz''"

definition ascii_uppercase :: string where
  "ascii_uppercase = ''ABCDEFGHIJKLMNOPQRSTUVWXYZ''"

definition ascii_letters :: string where
  "ascii_letters = ascii_lowercase @ ascii_uppercase"

definition punctuation :: string where
  "punctuation =
     ''!'' @ [CHR 0x22] @ ''#$%&'' @ [CHR 0x27] @ ''()*+,-./:;<=>?@['' @ [CHR 0x5C] @
     '']^_'' @ [CHR 0x60] @ ''{|}~''"

definition characters :: "string list" where
  "characters = map (\<lambda>c. [c]) (digits @ ascii_letters @ punctuation)"

definition generate_password ::
  "passphrase \<Rightarrow> urandom \<Rightarrow> ((error + token list) \<times> passphrase \<times> urandom) option" where
  "generate_password self u =
     (case append_draws (nat (passwordlen self)) (draw_word characters) [] u of
        None \<Rightarrow> None
      | Some (Inl e, u') \<Rightarrow> Some (Inl e, self, u')
      | Some (Inr password, u') \<Rightarrow>
          Some (Inr password, self\<lparr>last_result := Some password\<rparr>, u'))"

subsection \<open>Validated attributes\<close>

text \<open>
  Each setter returns the exception raised, if any, and the instance after the call.
  The checks come in the order of the source: the type first, then the sign.
\<close>

fun is_int :: "pyval \<Rightarrow> bool" where
  "is_int (PInt _) = True"
| "is_int _ = False"

fun is_number :: "pyval \<Rightarrow> bool" where
  "is_number (PInt _) = True"
| "is_number (PFloat _) = True"
| "is_number _ = False"

fun is_str :: "pyval \<Rightarrow> bool" where
  "is_str (PStr _) = True"
| "is_str _ = False"

text \<open>
  The int held by an int value, the exact number denoted by an int or a float, and the
  string held by a string value; used under the type checks only.
\<close>

fun int_val :: "pyval \<Rightarrow> int" where
  "int_val (PInt i) = i"
| "int_val _ = 0"

fun num_val :: "pyval \<Rightarrow> real" where
  "num_val (PInt i) = of_int i"
| "num_val (PFloat x) = x"
| "num_val _ = 0"

fun str_val :: "pyval \<Rightarrow> string" where
  "str_val (PStr s) = s"
| "str_val _ = []"

text \<open>
  Python's \<open>float\<close> on an int rounds the magnitude to 53 significant bits, to nearest
  and ties to even, and raises \<open>OverflowError\<close> when the rounded magnitude reaches
  \<open>2 ^ 1024\<close>. On a float it returns the float. The setter applies it to ints and floats
  only, after its type test; the last equation stands for \<open>None\<close>, and the parsing of a
  string is not modelled.
\<close>

definition round_to_double :: "nat \<Rightarrow> nat" where
  "round_to_double m =
     (if bit_length m \<le> 53 then m
      else let shift = bit_length m - 53;
               q = m div 2 ^ shift;
               r = m mod 2 ^ shift
           in (if 2 * r > 2 ^ shift \<or> (2 * r = 2 ^ shift \<and> odd q) then q + 1 else q) *
              2 ^ shift)"

fun py_float :: "pyval \<Rightarrow> error + real" where
  "py_float (PInt i) =
     (if round_to_double (nat \<bar>i\<bar>) \<ge> 2 ^ 1024
      then Inl (OverflowError ''int too large to convert to float'')
      else Inr (if i < 0 then - real (round_to_double (nat \<bar>i\<bar>))
                else real (round_to_double (nat \<bar>i\<bar>))))"
| "py_float (PFloat x) = Inr x"
| "py_float _ = Inl (TypeError ''float() argument must be a string or a real number'')"

definition set_entropy_bits_req :: "pyval \<Rightarrow> passphrase \<Rightarrow> (error + unit) \<times> passphrase" where
  "set_entropy_bits_req entropybits self =
     (if \<not> is_number entropybits
      then (Inl (TypeError ''entropy_bits_req can only be int or float''), self)
      else if num_val entropybits < 0
      then (Inl (ValueError ''entropy_bits_req should be greater than 0''), self)
      else case py_float entropybits of
             Inl e \<Rightarrow> (Inl e, self)
           | Inr x \<Rightarrow> (Inr (), self\<lparr>entropy_bits_req := x\<rparr>))"

definition set_randnum_min :: "pyval \<Rightarrow> passphrase \<Rightarrow> (error + unit) \<times> passphrase" where
  "set_randnum_min randnum self =
     (if \<not> is_int randnum
      then (Inl (TypeError ''randnum_min can only be int''), self)
      else if int_val randnum < 0
      then (Inl (ValueError ''randnum_min should be greater than 0''), self)
      else (Inr (), self\<lparr>randnum_min := int_val randnum\<rparr>))"

definition set_randnum_max :: "pyval \<Rightarrow> passphrase \<Rightarrow> (error + unit) \<times> passphrase" where
  "set_randnum_max randnum self =
     (if \<not> is_int randnum
      then (Inl (TypeError ''randnum_max can only be int''), self)
      else if int_val randnum < 0
      then (Inl (ValueError ''randnum_max should be greater than 0''), self)
      else (Inr (), self\<lparr>randnum_max := int_val randnum\<rparr>))"

definition set_amount_w :: "pyval \<Rightarrow> passphrase \<Rightarrow> (error + unit) \<times> passphrase" where
  "set_amount_w amount self =
     (if \<not> is_int amount
      then (Inl (TypeError ''amount_w can only be int''), self)
      else if int_val amount < 0
      then (Inl (ValueError ''amount_w should be greater than 0''), self)
      else (Inr (), self\<lparr>amount_w := int_val amount\<rparr>))"

definition set_amount_n :: "pyval \<Rightarrow> passphrase \<Rightarrow> (error + unit) \<times> passphrase" where
  "set_amount_n amount self =
     (if \<not> is_int amount
      then (Inl (TypeError ''amount_n can only be int''), self)
      else if int_val amount < 0
      then (Inl (ValueError ''amount_n should be greater than 0''), self)
      else (Inr (), self\<lparr>amount_n := int_val amount\<rparr>))"

definition set_passwordlen :: "pyval \<Rightarrow> passphrase \<Rightarrow> (error + unit) \<times> passphrase" where
  "set_passwordlen length' self =
     (if \<not> is_int length'
      then (Inl (TypeError ''passwordlen can only be int''), self)
      else if int_val length' < 0
      then (Inl (ValueError ''passwordlen should be greater than 0''), self)
      else (Inr (), self\<lparr>passwordlen := int_val length'\<rparr>))"

definition set_separator :: "pyval \<Rightarrow> passphrase \<Rightarrow> (error + unit) \<times> passphrase" where
  "set_separator sep self =
     (if \<not> is_str sep
      then (Inl (TypeError ''separator can only be string''), self)
      else (Inr (), self\<lparr>separator := str_val sep\<rparr>))"

text \<open>The wordlist setter, for an argument that is a list or a tuple of words.\<close>

definition set_wordlist :: "string list \<Rightarrow> passphrase \<Rightarrow> (error + unit) \<times> passphrase" where
  "set_wordlist words self = (Inr (), self\<lparr>wordlist := words, external_wordlist := True\<rparr>)"

subsection \<open>Conversion to a string\<close>

text \<open>Python's \<open>str\<close> on an int: decimal digits, with a minus sign when negative.\<close>

definition digit_char :: "nat \<Rightarrow> char" where
  "digit_char d = ''0123456789'' ! d"

fun str_nat :: "nat \<Rightarrow> string" where
  "str_nat n =
     (if n < 10 then [digit_char n] else str_nat (n div 10) @ [digit_char (n mod 10)])"

declare str_nat.simps [simp del]

definition str_int :: "int \<Rightarrow> string" where
  "str_int i = (if i < 0 then ''-'' @ str_nat (nat (- i)) else str_nat (nat i))"

fun str_token :: "token \<Rightarrow> string" where
  "str_token (Word w) = w"
| "str_token (Num i) = str_int i"

text \<open>
  The slice \<open>s[:stop:]\<close>: the whole string when \<open>stop\<close> is \<open>None\<close>, and for a negative
  \<open>stop\<close> the string without its last \<open>-stop\<close> characters (the empty string when it has
  fewer).
\<close>

definition slice_to :: "string \<Rightarrow> int option \<Rightarrow> string" where
  "slice_to s stop =
     (case stop of
        None \<Rightarrow> s
      | Some i \<Rightarrow> if i < 0 then take (nat (int (length s) + i)) s else take (nat i) s)"

text \<open>\<open>Passphrase.__str__\<close>.\<close>

definition to_str :: "passphrase \<Rightarrow> string" where
  "to_str self =
     (case last_result self of
        None \<Rightarrow> []
      | Some res \<Rightarrow>
          (let separator_len = int (length (separator self));
               rm_last_separator = (if separator_len > 0 then Some (- separator_len) else None)
           in slice_to (concat (map (\<lambda>w. w @ separator self) (map str_token res)))
                rm_last_separator))"

subsection \<open>Entropy\<close>

text \<open>
  Modelled from the spec: the module \<open>calc\<close> is not among the sources. The entropy of
  an alphabet counts its distinct elements: 0 for a size of 0 or 1, the base-2 logarithm
  of the size otherwise.
\<close>

definition entropy_of_size :: "real \<Rightarrow> real" where
  "entropy_of_size size' = (if size' = 0 then 0 else if size' = 1 then 0 else log 2 size')"

definition calc_entropy_bits :: "pyval list \<Rightarrow> real" where
  "calc_entropy_bits lst = entropy_of_size (real (length (remdups lst)))"

text \<open>
  Modelled from the spec: the number of integers in \<open>[min, max]\<close> is \<open>max - min + 1\<close>,
  and the range has the entropy of an alphabet with that count; \<open>InvalidRange\<close> if
  \<open>max < min\<close>.
\<close>

definition calc_entropy_bits_nrange :: "real \<Rightarrow> real \<Rightarrow> error + real" where
  "calc_entropy_bits_nrange minimum maximum =
     (if maximum < minimum then Inl InvalidRange
      else Inr (entropy_of_size (maximum - minimum + 1)))"

text \<open>
  Modelled from the spec: the smallest non-negative word count with
  \<open>word_count * entropy_per_word + number_count * entropy_per_number \<ge> entropy_bits_required\<close>,
  that is \<open>ceil(max(0, required - number_count * entropy_per_number) / entropy_per_word)\<close>;
  \<open>DegenerateAlphabet\<close> if \<open>entropy_per_word \<le> 0\<close> and the count would be positive.
\<close>

definition calc_words_amount_needed :: "real \<Rightarrow> real \<Rightarrow> real \<Rightarrow> int \<Rightarrow> error + int" where
  "calc_words_amount_needed entropybits entropy_w entropy_n amount_n' =
     (let missing = max 0 (entropybits - of_int amount_n' * entropy_n)
      in if entropy_w \<le> 0
         then (if missing > 0 then Inl DegenerateAlphabet else Inr 0)
         else Inr \<lceil>missing / entropy_w\<rceil>)"

text \<open>
  The static method \<open>Passphrase.entropy_bits\<close>: a list of exactly two numbers is taken
  as a numerical range, anything else as a wordlist.
\<close>

definition entropy_bits :: "pyval list \<Rightarrow> error + real" where
  "entropy_bits lst =
     (let size' = length lst
      in if size' = 2 \<and> is_number (lst ! 0) \<and> is_number (lst ! 1)
         then calc_entropy_bits_nrange (num_val (lst ! 0)) (num_val (lst ! 1))
         else Inr (calc_entropy_bits lst))"

text \<open>
  \<open>Passphrase.words_amount_needed\<close>, with the instance after the call. An exception of
  one of the entropy computations leaves the method at that point.
\<close>

definition words_amount_needed :: "passphrase \<Rightarrow> (error + int) \<times> passphrase" where
  "words_amount_needed self =
     (case entropy_bits [PInt (randnum_min self), PInt (randnum_max self)] of
        Inl e \<Rightarrow> (Inl e, self)
      | Inr entropy_n \<Rightarrow>
          (case (if \<not> external_wordlist self then Inr (wordlist_entropy_bits self)
                 else entropy_bits (map PStr (wordlist self))) of
             Inl e \<Rightarrow> (Inl e, self)
           | Inr entropy_w \<Rightarrow>
               (calc_words_amount_needed (entropy_bits_req self) entropy_w entropy_n
                  (amount_n self), self)))"

section \<open>Notions used in the statements\<close>

text \<open>
  An attempt of \<open>random_below n\<close> on the source \<open>u\<close> is accepted when the masked value of
  the next block is below \<open>n\<close>. A byte sequence is fair for \<open>n\<close> when, from every position,
  some later attempt is accepted. The secure generator delivers such a sequence with
  probability one.
\<close>

definition accepted :: "nat \<Rightarrow> urandom \<Rightarrow> bool" where
  "accepted n u = (masked n (read_bytes u (nbytes n)) < n)"

definition fair :: "(nat \<Rightarrow> byte) \<Rightarrow> nat \<Rightarrow> bool" where
  "fair src n = (\<forall>pos. \<exists>j. accepted n \<lparr>bytes = src, consumed = pos + j * nbytes n\<rparr>)"

text \<open>
  A source that delivers the given bytes first and zero bytes ever after; it is used to
  run the functions on concrete inputs.
\<close>

definition tape :: "byte list \<Rightarrow> urandom" where
  "tape bs = \<lparr>bytes = (\<lambda>i. if i < length bs then bs ! i else 0), consumed = 0\<rparr>"

text \<open>
  The byte strings of \<open>j + 1\<close> blocks on which \<open>random_below n\<close> returns \<open>v\<close> at its attempt
  number \<open>j + 1\<close>, having consumed exactly these bytes; and the blocks that an attempt
  rejects. Every byte string of a given length is equally likely, so the number of
  strings in \<open>returns_at n j v\<close> measures the probability of that outcome.
\<close>

definition returns_at :: "nat \<Rightarrow> nat \<Rightarrow> nat \<Rightarrow> byte list set" where
  "returns_at n j v =
     {bs. length bs = Suc j * nbytes n \<and>
          random_below n (tape bs) = Some (v, advance (tape bs) (Suc j * nbytes n))}"

definition rejected_blocks :: "nat \<Rightarrow> byte list set" where
  "rejected_blocks n = {bs. length bs = nbytes n \<and> \<not> masked n bs < n}"

text \<open>
  The rendering as the specification words it: the textual forms of the tokens with the
  separator between them, and no separator after the last.
\<close>

fun joined_with :: "string \<Rightarrow> string list \<Rightarrow> string" where
  "joined_with sep [] = []"
| "joined_with sep [w] = w"
| "joined_with sep (w # v # ws) = w @ sep @ joined_with sep (v # ws)"

section \<open>The rejection loop\<close>

lemma bit_length_upper: "n < 2 ^ bit_length n"
proof (induction n rule: bit_length.induct)
  case (1 n)
  show ?case
  proof (cases "n = 0")
    case True
    then show ?thesis by (simp add: bit_length.simps)
  next
    case False
    with 1 have "n div 2 < 2 ^ bit_length (n div 2)" by simp
    then have "n < 2 * 2 ^ bit_length (n div 2)" by linarith
    with False show ?thesis by (subst bit_length.simps) simp
  qed
qed

lemma bit_length_lower: "0 < n \<Longrightarrow> 2 ^ (bit_length n - 1) \<le> n"
proof (induction n rule: bit_length.induct)
  case (1 n)
  show ?case
  proof (cases "n div 2 = 0")
    case True
    with 1(2) have "n = 1" by linarith
    then show ?thesis by (simp add: bit_length.simps)
  next
    case False
    with 1 have ih: "2 ^ (bit_length (n div 2) - 1) \<le> n div 2" by simp
    from False have "bit_length (n div 2) > 0" by (subst bit_length.simps) simp
    then have "(2::nat) ^ bit_length (n div 2) = 2 * 2 ^ (bit_length (n div 2) - 1)"
      by (cases "bit_length (n div 2)") simp_all
    with ih have "2 ^ bit_length (n div 2) \<le> n" by linarith
    with 1(2) show ?thesis by (subst bit_length.simps) simp
  qed
qed

lemma masked_less: "masked n bs < 2 ^ bit_length n"
  by (simp add: masked_def)

lemma random_below_accept:
  "accepted n u \<Longrightarrow>
   random_below n u = Some (masked n (read_bytes u (nbytes n)), advance u (nbytes n))"
  by (subst random_below.simps) (simp add: accepted_def)

lemma random_below_reject:
  "\<not> accepted n u \<Longrightarrow> random_below n u = random_below n (advance u (nbytes n))"
  by (subst random_below.simps) (simp add: accepted_def)

lemma random_below_sound_aux:
  assumes "random_below n u = Some y"
  shows "fst y < n \<and> bytes (snd y) = bytes u"
proof (rule random_below.raw_induct
    [where P = "\<lambda>n u y. fst y < n \<and> bytes (snd y) = bytes u", OF _ assms])
  fix f :: "nat \<Rightarrow> urandom \<Rightarrow> (nat \<times> urandom) option" and n u y
  assume IH: "\<And>n u y. f n u = Some y \<Longrightarrow> fst y < n \<and> bytes (snd y) = bytes u"
    and eq: "(if masked n (read_bytes u (nbytes n)) < n
              then Some (masked n (read_bytes u (nbytes n)), advance u (nbytes n))
              else f n (advance u (nbytes n))) = Some y"
  show "fst y < n \<and> bytes (snd y) = bytes u"
  proof (cases "masked n (read_bytes u (nbytes n)) < n")
    case True
    with eq show ?thesis by (auto simp: advance_def)
  next
    case False
    with eq have "f n (advance u (nbytes n)) = Some y" by simp
    from IH [OF this] show ?thesis by (simp add: advance_def)
  qed
qed

lemma random_below_sound:
  "random_below n u = Some (v, u') \<Longrightarrow> v < n \<and> bytes u' = bytes u"
  using random_below_sound_aux [of n u "(v, u')"] by simp

lemma random_below_fair_aux:
  "accepted n (advance u (j * nbytes n)) \<Longrightarrow>
   \<exists>v u'. random_below n u = Some (v, u')"
proof (induction j arbitrary: u)
  case 0
  then have "accepted n u" by (simp add: advance_def)
  then show ?case by (simp add: random_below_accept)
next
  case (Suc j)
  show ?case
  proof (cases "accepted n u")
    case True
    then show ?thesis by (simp add: random_below_accept)
  next
    case False
    have "advance (advance u (nbytes n)) (j * nbytes n) = advance u (Suc j * nbytes n)"
      by (simp add: advance_def add.assoc)
    with Suc.prems have "accepted n (advance (advance u (nbytes n)) (j * nbytes n))"
      by simp
    from Suc.IH [OF this] False show ?thesis
      by (simp add: random_below_reject)
  qed
qed

lemma random_below_fair:
  assumes "fair (bytes u) n"
  shows "\<exists>v u'. random_below n u = Some (v, u') \<and> v < n \<and> bytes u' = bytes u"
proof -
  from assms obtain j where
    "accepted n \<lparr>bytes = bytes u, consumed = consumed u + j * nbytes n\<rparr>"
    unfolding fair_def by blast
  then have "accepted n (advance u (j * nbytes n))"
    by (simp add: accepted_def read_bytes_def advance_def)
  from random_below_fair_aux [OF this] obtain v u' where r: "random_below n u = Some (v, u')"
    by blast
  with random_below_sound [OF r] show ?thesis by blast
qed

lemma from_bytes_zeros: "from_bytes (map (\<lambda>_. 0) xs) = 0"
proof -
  have "foldl (\<lambda>a (b::byte). a * 256 + unat b) 0 (map (\<lambda>_. 0) xs) = 0"
    by (induction xs) simp_all
  then show ?thesis by (simp add: from_bytes_def)
qed

lemma fair_zero: "0 < n \<Longrightarrow> fair (\<lambda>_. 0) n"
  by (simp add: fair_def accepted_def masked_def read_bytes_def from_bytes_zeros)


lemma draw_word_fair:
  assumes "seq \<noteq> []" and "fair (bytes u) (length seq)"
  shows "\<exists>w u'. draw_word seq u = Some (Inr (Word w), u') \<and> w \<in> set seq \<and> bytes u' = bytes u"
proof -
  from random_below_fair [OF assms(2)] obtain v u' where
    "random_below (length seq) u = Some (v, u')" "v < length seq" "bytes u' = bytes u"
    by blast
  with assms(1) show ?thesis
    by (simp add: draw_word_def randchoice_def)
qed

lemma draw_number_fair:
  assumes "lo \<le> hi" and "0 \<le> lo" and "fair (bytes u) (nat (hi - lo + 1))"
  shows "\<exists>i u'. draw_number lo hi u = Some (Inr (Num i), u') \<and> lo \<le> i \<and> i \<le> hi \<and>
           bytes u' = bytes u"
proof -
  from random_below_fair [OF assms(3)] obtain v u' where
    "random_below (nat (hi - lo + 1)) u = Some (v, u')" "v < nat (hi - lo + 1)"
    "bytes u' = bytes u"
    by blast
  with assms(1,2) show ?thesis
    by (simp add: draw_number_def randbetween_def)
qed

lemma append_draws_total:
  assumes draw: "\<And>u. bytes u = src \<Longrightarrow>
            \<exists>t u'. draw u = Some (Inr t, u') \<and> P t \<and> bytes u' = src"
    and "bytes u = src"
  shows "\<exists>ts u'. append_draws k draw acc u = Some (Inr (acc @ ts), u') \<and> length ts = k \<and>
           (\<forall>t \<in> set ts. P t) \<and> bytes u' = src"
  using assms(2)
proof (induction k arbitrary: acc u)
  case 0
  then show ?case by simp
next
  case (Suc k)
  from draw [OF Suc.prems] obtain t u1 where
    d: "draw u = Some (Inr t, u1)" "P t" "bytes u1 = src"
    by blast
  from Suc.IH [OF d(3), of "acc @ [t]"] obtain ts u' where
    r: "append_draws k draw (acc @ [t]) u1 = Some (Inr ((acc @ [t]) @ ts), u')"
      "length ts = k" "\<forall>t \<in> set ts. P t" "bytes u' = src"
    by blast
  have "append_draws (Suc k) draw acc u = Some (Inr (acc @ (t # ts)), u')"
    using d(1) r(1) by simp
  moreover have "length (t # ts) = Suc k" using r(2) by simp
  moreover have "\<forall>x \<in> set (t # ts). P x" using d(2) r(3) by simp
  ultimately show ?case using r(4) by blast
qed

section \<open>Counting the outcomes of the rejection loop\<close>

lemma from_bytes_snoc: "from_bytes (bs @ [x]) = from_bytes bs * 256 + unat x"
  by (simp add: from_bytes_def)

lemma unat_byte_less: "unat (x :: byte) < 256"
  using unsigned_less [of x, where ?'a = nat] by simp

lemma from_bytes_less: "from_bytes bs < 256 ^ length bs"
proof (induction bs rule: rev_induct)
  case Nil
  then show ?case by (simp add: from_bytes_def)
next
  case (snoc x bs)
  have "from_bytes bs * 256 + unat x < (from_bytes bs + 1) * 256"
    using unat_byte_less [of x] by simp
  also have "\<dots> \<le> 256 ^ length bs * 256"
    using snoc.IH by (intro mult_le_mono1) simp
  finally show ?case by (simp add: from_bytes_snoc)
qed

lemma from_bytes_inj:
  "length xs = length ys \<Longrightarrow> from_bytes xs = from_bytes ys \<Longrightarrow> xs = ys"
proof (induction xs arbitrary: ys rule: rev_induct)
  case Nil
  then show ?case by simp
next
  case (snoc x xs)
  from snoc.prems(1) obtain y ys' where ys: "ys = ys' @ [y]"
    by (cases ys rule: rev_cases) simp_all
  with snoc.prems have len: "length xs = length ys'"
    and eq: "from_bytes xs * 256 + unat x = from_bytes ys' * 256 + unat y"
    by (simp_all add: from_bytes_snoc)
  from eq have "(from_bytes xs * 256 + unat x) div 256 = (from_bytes ys' * 256 + unat y) div 256"
    and "(from_bytes xs * 256 + unat x) mod 256 = (from_bytes ys' * 256 + unat y) mod 256"
    by simp_all
  then have "from_bytes xs = from_bytes ys'" and "unat x = unat y"
    using unat_byte_less [of x] unat_byte_less [of y] by simp_all
  with snoc.IH [OF len] ys show ?case by (simp add: word_unat_eq_iff)
qed

lemma card_blocks: "card {bs :: byte list. length bs = b} = 256 ^ b"
  using card_lists_length_eq [of "UNIV :: byte set" b] by (simp add: card_word)

lemma finite_blocks: "finite {bs :: byte list. length bs = b}"
  using finite_lists_length_eq [of "UNIV :: byte set" b] by simp

lemma from_bytes_image: "from_bytes ` {bs. length bs = b} = {..<256 ^ b}"
proof (rule card_subset_eq)
  show "finite {..<(256::nat) ^ b}" by simp
  show "from_bytes ` {bs. length bs = b} \<subseteq> {..<256 ^ b}"
    using from_bytes_less by auto
  have "inj_on from_bytes {bs. length bs = b}"
    by (rule inj_onI) (simp add: from_bytes_inj)
  then show "card (from_bytes ` {bs. length bs = b}) = card {..<(256::nat) ^ b}"
    by (simp add: card_image card_blocks)
qed

lemma card_residue:
  assumes "v < 2 ^ k" and "k \<le> m"
  shows "card {r :: nat. r < 2 ^ m \<and> r mod 2 ^ k = v} = 2 ^ (m - k)"
proof -
  have "{r :: nat. r < 2 ^ m \<and> r mod 2 ^ k = v} = (\<lambda>q. v + 2 ^ k * q) ` {..<2 ^ (m - k)}"
    (is "?L = ?f ` ?Q")
  proof (intro set_eqI iffI)
    fix r assume "r \<in> ?L"
    then have r: "r < 2 ^ m" "r mod 2 ^ k = v" by simp_all
    have "(2::nat) ^ m = 2 ^ k * 2 ^ (m - k)"
      using assms(2) by (simp flip: power_add)
    with r(1) have "r div 2 ^ k < 2 ^ (m - k)"
      by (simp add: less_mult_imp_div_less mult.commute)
    moreover have "r = v + 2 ^ k * (r div 2 ^ k)"
      using r(2) mod_mult_div_eq [of r "2 ^ k"] by simp
    ultimately show "r \<in> ?f ` ?Q" by blast
  next
    fix r assume "r \<in> ?f ` ?Q"
    then obtain q where q: "q < 2 ^ (m - k)" "r = v + 2 ^ k * q" by auto
    have "v + 2 ^ k * q < 2 ^ k * (q + 1)" using assms(1) by simp
    also have "\<dots> \<le> 2 ^ k * 2 ^ (m - k)"
      using q(1) by (intro mult_le_mono2) simp
    also have "\<dots> = 2 ^ m" using assms(2) by (simp flip: power_add)
    finally have "r < 2 ^ m" using q(2) by simp
    moreover have "r mod 2 ^ k = v" using q(2) assms(1) by simp
    ultimately show "r \<in> ?L" by simp
  qed
  moreover have "inj_on ?f ?Q" by (auto intro: inj_onI)
  ultimately show ?thesis by (simp add: card_image)
qed

lemma bit_length_pos: "0 < n \<Longrightarrow> 0 < bit_length n"
  by (subst bit_length.simps) simp

lemma nbytes_covers: "bit_length n \<le> 8 * nbytes n"
  by (simp add: nbytes_def)

lemma nbytes_minimal: "0 < n \<Longrightarrow> 8 * (nbytes n - 1) < bit_length n"
  using bit_length_pos [of n] by (simp add: nbytes_def)

lemma nbytes_pos: "0 < n \<Longrightarrow> 0 < nbytes n"
  using bit_length_pos [of n] by (simp add: nbytes_def)

lemma card_masked:
  assumes "v < 2 ^ bit_length n"
  shows "card {bs. length bs = nbytes n \<and> masked n bs = v} =
           2 ^ (8 * nbytes n - bit_length n)"
proof -
  let ?B = "{bs. length bs = nbytes n \<and> masked n bs = v}"
  have inj: "inj_on from_bytes ?B"
    by (rule inj_onI) (simp add: from_bytes_inj)
  have "from_bytes ` ?B = {r. r < 2 ^ (8 * nbytes n) \<and> r mod 2 ^ bit_length n = v}"
  proof (intro set_eqI iffI)
    fix r assume "r \<in> from_bytes ` ?B"
    then obtain bs where "length bs = nbytes n" "masked n bs = v" "r = from_bytes bs"
      by auto
    then show "r \<in> {r. r < 2 ^ (8 * nbytes n) \<and> r mod 2 ^ bit_length n = v}"
      using from_bytes_less [of bs] by (simp add: masked_def take_bit_eq_mod power_mult)
  next
    fix r assume "r \<in> {r. r < 2 ^ (8 * nbytes n) \<and> r mod 2 ^ bit_length n = v}"
    then have r: "r < 256 ^ nbytes n" "r mod 2 ^ bit_length n = v"
      by (simp_all add: power_mult)
    from r(1) have "r \<in> from_bytes ` {bs. length bs = nbytes n}"
      by (simp add: from_bytes_image)
    then obtain bs where "length bs = nbytes n" "r = from_bytes bs" by auto
    with r(2) show "r \<in> from_bytes ` ?B"
      by (auto simp: masked_def take_bit_eq_mod)
  qed
  then have "card ?B = card {r. r < 2 ^ (8 * nbytes n) \<and> r mod 2 ^ bit_length n = v}"
    using card_image [OF inj] by simp
  then show ?thesis
    using card_residue [OF assms nbytes_covers] by simp
qed

lemma advance_advance: "advance (advance u a) b = advance u (a + b)"
  by (simp add: advance_def add.assoc)

lemma advance_0: "advance u 0 = u"
  by (simp add: advance_def)

lemma random_below_at:
  assumes "\<forall>i<j. \<not> accepted n (advance u (i * nbytes n))"
    and "accepted n (advance u (j * nbytes n))"
  shows "random_below n u =
           Some (masked n (read_bytes (advance u (j * nbytes n)) (nbytes n)),
                 advance u (Suc j * nbytes n))"
  using assms
proof (induction j arbitrary: u)
  case 0
  then show ?case by (simp add: advance_0 random_below_accept)
next
  case (Suc j)
  let ?u = "advance u (nbytes n)"
  from Suc.prems(1) have "\<not> accepted n (advance u (0 * nbytes n))" by blast
  then have rej: "random_below n u = random_below n ?u"
    by (simp add: advance_0 random_below_reject)
  have shift: "advance ?u (i * nbytes n) = advance u (Suc i * nbytes n)" for i
    by (simp add: advance_advance)
  have "\<forall>i<j. \<not> accepted n (advance ?u (i * nbytes n))"
    using Suc.prems(1) by (simp only: shift) auto
  moreover have "accepted n (advance ?u (j * nbytes n))"
    using Suc.prems(2) by (simp only: shift)
  ultimately have "random_below n ?u =
      Some (masked n (read_bytes (advance ?u (j * nbytes n)) (nbytes n)),
            advance ?u (Suc j * nbytes n))"
    by (rule Suc.IH)
  with rej show ?case by (simp only: shift)
qed

lemma random_below_first:
  assumes "random_below n u = Some y"
  shows "\<exists>j. (\<forall>i<j. \<not> accepted n (advance u (i * nbytes n))) \<and>
              accepted n (advance u (j * nbytes n)) \<and>
              y = (masked n (read_bytes (advance u (j * nbytes n)) (nbytes n)),
                   advance u (Suc j * nbytes n))"
proof (rule random_below.raw_induct
    [where P = "\<lambda>n u y. \<exists>j. (\<forall>i<j. \<not> accepted n (advance u (i * nbytes n))) \<and>
              accepted n (advance u (j * nbytes n)) \<and>
              y = (masked n (read_bytes (advance u (j * nbytes n)) (nbytes n)),
                   advance u (Suc j * nbytes n))", OF _ assms])
  fix f :: "nat \<Rightarrow> urandom \<Rightarrow> (nat \<times> urandom) option" and n u y
  assume IH: "\<And>n u y. f n u = Some y \<Longrightarrow>
      \<exists>j. (\<forall>i<j. \<not> accepted n (advance u (i * nbytes n))) \<and>
              accepted n (advance u (j * nbytes n)) \<and>
              y = (masked n (read_bytes (advance u (j * nbytes n)) (nbytes n)),
                   advance u (Suc j * nbytes n))"
    and eq: "(if masked n (read_bytes u (nbytes n)) < n
              then Some (masked n (read_bytes u (nbytes n)), advance u (nbytes n))
              else f n (advance u (nbytes n))) = Some y"
  show "\<exists>j. (\<forall>i<j. \<not> accepted n (advance u (i * nbytes n))) \<and>
              accepted n (advance u (j * nbytes n)) \<and>
              y = (masked n (read_bytes (advance u (j * nbytes n)) (nbytes n)),
                   advance u (Suc j * nbytes n))"
  proof (cases "accepted n u")
    case True
    with eq have "y = (masked n (read_bytes u (nbytes n)), advance u (nbytes n))"
      by (auto simp: accepted_def)
    with True show ?thesis
      by (intro exI [of _ 0]) (simp add: advance_0)
  next
    case False
    let ?u = "advance u (nbytes n)"
    have shift: "advance ?u (i * nbytes n) = advance u (Suc i * nbytes n)" for i
      by (simp add: advance_advance)
    from False eq have "f n ?u = Some y" by (simp add: accepted_def)
    from IH [OF this] obtain j where
      j: "\<forall>i<j. \<not> accepted n (advance u (Suc i * nbytes n))"
        "accepted n (advance u (Suc j * nbytes n))"
        "y = (masked n (read_bytes (advance u (Suc j * nbytes n)) (nbytes n)),
              advance u (Suc (Suc j) * nbytes n))"
      by (auto simp only: shift)
    have "\<not> accepted n (advance u (i * nbytes n))" if "i < Suc j" for i
    proof (cases i)
      case 0
      with False show ?thesis by (simp add: advance_0)
    next
      case (Suc i')
      with that j(1) show ?thesis by simp
    qed
    with j(2,3) show ?thesis
      by (intro exI [of _ "Suc j"]) blast
  qed
qed

lemma read_bytes_tape:
  assumes "a + b \<le> length bs"
  shows "read_bytes (advance (tape bs) a) b = take b (drop a bs)"
proof (rule nth_equalityI)
  show "length (read_bytes (advance (tape bs) a) b) = length (take b (drop a bs))"
    using assms by (simp add: read_bytes_def advance_def tape_def)
next
  fix i assume "i < length (read_bytes (advance (tape bs) a) b)"
  then have "i < b" by (simp add: read_bytes_def)
  with assms show "read_bytes (advance (tape bs) a) b ! i = take b (drop a bs) ! i"
    by (simp add: read_bytes_def advance_def tape_def)
qed

lemma accepted_tape:
  assumes "Suc i * nbytes n \<le> length bs"
  shows "accepted n (advance (tape bs) (i * nbytes n)) \<longleftrightarrow>
           masked n (take (nbytes n) (drop (i * nbytes n) bs)) < n"
  using assms by (simp add: accepted_def read_bytes_tape)

lemma returns_at_iff:
  assumes "0 < n"
  shows "bs \<in> returns_at n j v \<longleftrightarrow>
           length bs = Suc j * nbytes n \<and>
           (\<forall>i<j. \<not> masked n (take (nbytes n) (drop (i * nbytes n) bs)) < n) \<and>
           masked n (take (nbytes n) (drop (j * nbytes n) bs)) = v \<and> v < n"
    (is "?L \<longleftrightarrow> ?R")
proof
  assume ?L
  then have len: "length bs = Suc j * nbytes n"
    and r: "random_below n (tape bs) = Some (v, advance (tape bs) (Suc j * nbytes n))"
    by (simp_all add: returns_at_def)
  from random_below_first [OF r] obtain j' where
    j': "\<forall>i<j'. \<not> accepted n (advance (tape bs) (i * nbytes n))"
      "accepted n (advance (tape bs) (j' * nbytes n))"
      "v = masked n (read_bytes (advance (tape bs) (j' * nbytes n)) (nbytes n))"
      "advance (tape bs) (Suc j * nbytes n) = advance (tape bs) (Suc j' * nbytes n)"
    by auto
  from j'(4) have "consumed (advance (tape bs) (Suc j * nbytes n)) =
      consumed (advance (tape bs) (Suc j' * nbytes n))"
    by simp
  then have "Suc j * nbytes n = Suc j' * nbytes n"
    by (simp add: advance_def)
  with nbytes_pos [OF assms] have "j' = j" by simp
  have fits: "Suc i * nbytes n \<le> length bs" if "i \<le> j" for i
    using that len by simp
  from j'(1) have "\<forall>i<j. \<not> masked n (take (nbytes n) (drop (i * nbytes n) bs)) < n"
    using fits by (simp add: \<open>j' = j\<close> accepted_tape)
  moreover from j'(2) have "masked n (take (nbytes n) (drop (j * nbytes n) bs)) < n"
    using fits [of j] by (simp add: \<open>j' = j\<close> accepted_tape)
  moreover from j'(3) have "v = masked n (take (nbytes n) (drop (j * nbytes n) bs))"
    using fits [of j] by (simp add: \<open>j' = j\<close> read_bytes_tape)
  ultimately show ?R using len by simp
next
  assume ?R
  then have len: "length bs = Suc j * nbytes n"
    and rej: "\<forall>i<j. \<not> masked n (take (nbytes n) (drop (i * nbytes n) bs)) < n"
    and acc: "masked n (take (nbytes n) (drop (j * nbytes n) bs)) = v" "v < n"
    by blast+
  have fits: "Suc i * nbytes n \<le> length bs" if "i \<le> j" for i
    using that len by simp
  have "\<forall>i<j. \<not> accepted n (advance (tape bs) (i * nbytes n))"
    using rej fits by (simp add: accepted_tape)
  moreover have "accepted n (advance (tape bs) (j * nbytes n))"
    using acc fits [of j] by (simp add: accepted_tape)
  ultimately have "random_below n (tape bs) =
      Some (masked n (read_bytes (advance (tape bs) (j * nbytes n)) (nbytes n)),
            advance (tape bs) (Suc j * nbytes n))"
    by (rule random_below_at)
  moreover have "read_bytes (advance (tape bs) (j * nbytes n)) (nbytes n) =
      take (nbytes n) (drop (j * nbytes n) bs)"
    using fits [of j] by (simp add: read_bytes_tape)
  ultimately show ?L using len acc(1) by (simp add: returns_at_def)
qed

lemma returns_at_0:
  assumes "0 < n" and "v < n"
  shows "returns_at n 0 v = {bs. length bs = nbytes n \<and> masked n bs = v}"
  using assms by (auto simp: returns_at_iff)

lemma returns_at_Suc:
  assumes "0 < n"
  shows "returns_at n (Suc j) v = (\<lambda>(x, y). x @ y) ` (rejected_blocks n \<times> returns_at n j v)"
proof (intro set_eqI iffI)
  fix bs assume "bs \<in> returns_at n (Suc j) v"
  then have len: "length bs = Suc (Suc j) * nbytes n"
    and rej: "\<forall>i<Suc j. \<not> masked n (take (nbytes n) (drop (i * nbytes n) bs)) < n"
    and acc: "masked n (take (nbytes n) (drop (Suc j * nbytes n) bs)) = v" "v < n"
    unfolding returns_at_iff [OF assms] by blast+
  let ?x = "take (nbytes n) bs" and ?y = "drop (nbytes n) bs"
  have shift: "drop (i * nbytes n) ?y = drop (Suc i * nbytes n) bs" for i
    by (simp add: add.commute)
  from rej have "\<not> masked n (take (nbytes n) (drop (0 * nbytes n) bs)) < n" by blast
  then have "?x \<in> rejected_blocks n"
    using len by (simp add: rejected_blocks_def)
  moreover have "?y \<in> returns_at n j v"
    unfolding returns_at_iff [OF assms] shift
    using len rej acc by auto
  moreover have "bs = ?x @ ?y" by simp
  ultimately show "bs \<in> (\<lambda>(x, y). x @ y) ` (rejected_blocks n \<times> returns_at n j v)"
    by (metis (no_types, lifting) SigmaI case_prod_conv image_eqI)
next
  fix bs assume "bs \<in> (\<lambda>(x, y). x @ y) ` (rejected_blocks n \<times> returns_at n j v)"
  then obtain x y where bs: "bs = x @ y"
    and x: "length x = nbytes n" "\<not> masked n x < n"
    and "y \<in> returns_at n j v"
    by (auto simp: rejected_blocks_def)
  then have len: "length y = Suc j * nbytes n"
    and rej: "\<forall>i<j. \<not> masked n (take (nbytes n) (drop (i * nbytes n) y)) < n"
    and acc: "masked n (take (nbytes n) (drop (j * nbytes n) y)) = v" "v < n"
    unfolding returns_at_iff [OF assms] by blast+
  have shift: "drop (Suc i * nbytes n) bs = drop (i * nbytes n) y" for i
    using x(1) by (simp add: bs)
  have "\<not> masked n (take (nbytes n) (drop (i * nbytes n) bs)) < n" if "i < Suc j" for i
  proof (cases i)
    case 0
    with x show ?thesis by (simp add: bs)
  next
    case (Suc i')
    with that rej show ?thesis by (simp only: shift) simp
  qed
  moreover have "masked n (take (nbytes n) (drop (Suc j * nbytes n) bs)) = v"
    using acc(1) by (simp only: shift)
  moreover have "length bs = Suc (Suc j) * nbytes n"
    using len x(1) by (simp add: bs)
  ultimately show "bs \<in> returns_at n (Suc j) v"
    unfolding returns_at_iff [OF assms] using acc(2) by blast
qed

lemma finite_rejected_blocks: "finite (rejected_blocks n)"
  by (rule finite_subset [OF _ finite_blocks [of "nbytes n"]]) (auto simp: rejected_blocks_def)

lemma card_rejected_blocks:
  "card (rejected_blocks n) = (2 ^ bit_length n - n) * 2 ^ (8 * nbytes n - bit_length n)"
proof -
  let ?A = "\<lambda>v. {bs. length bs = nbytes n \<and> masked n bs = v}"
  have "rejected_blocks n = (\<Union>v \<in> {n..<2 ^ bit_length n}. ?A v)"
    using masked_less [of n] by (auto simp: rejected_blocks_def not_less)
  moreover have "card (\<Union>v \<in> {n..<2 ^ bit_length n}. ?A v) =
      (\<Sum>v \<in> {n..<2 ^ bit_length n}. card (?A v))"
  proof (rule card_UN_disjoint)
    show "finite {n..<2 ^ bit_length n}" by simp
    show "\<forall>v \<in> {n..<2 ^ bit_length n}. finite (?A v)"
      by (auto intro: finite_subset [OF _ finite_blocks [of "nbytes n"]])
    show "\<forall>v \<in> {n..<2 ^ bit_length n}. \<forall>w \<in> {n..<2 ^ bit_length n}.
        v \<noteq> w \<longrightarrow> ?A v \<inter> ?A w = {}"
      by auto
  qed
  moreover have "(\<Sum>v \<in> {n..<2 ^ bit_length n}. card (?A v)) =
      (\<Sum>v \<in> {n..<2 ^ bit_length n}. 2 ^ (8 * nbytes n - bit_length n))"
    by (rule sum.cong) (simp_all add: card_masked)
  ultimately show ?thesis by simp
qed

lemma card_returns_at:
  assumes "0 < n" and "v < n"
  shows "card (returns_at n j v) =
           ((2 ^ bit_length n - n) * 2 ^ (8 * nbytes n - bit_length n)) ^ j *
           2 ^ (8 * nbytes n - bit_length n)"
proof (induction j)
  case 0
  have "v < 2 ^ bit_length n"
    using assms(2) bit_length_upper [of n] by simp
  then show ?case
    by (simp add: returns_at_0 [OF assms] card_masked)
next
  case (Suc j)
  have "inj_on (\<lambda>(x, y). x @ y) (rejected_blocks n \<times> returns_at n j v)"
    by (rule inj_onI) (auto simp: rejected_blocks_def)
  then have "card (returns_at n (Suc j) v) = card (rejected_blocks n \<times> returns_at n j v)"
    by (simp add: returns_at_Suc [OF assms(1)] card_image)
  then show ?case
    by (simp add: card_cartesian_product card_rejected_blocks Suc.IH)
qed

lemma rejected_at_most_half:
  assumes "0 < n"
  shows "2 * card (rejected_blocks n) \<le> 256 ^ nbytes n"
proof -
  let ?k = "bit_length n" and ?A = "2 ^ (8 * nbytes n - bit_length n) :: nat"
  have k: "(2::nat) ^ ?k = 2 * 2 ^ (?k - 1)"
    using bit_length_pos [OF assms] by (cases ?k) simp_all
  with bit_length_lower [OF assms] have "2 * (2 ^ ?k - n) \<le> 2 ^ ?k" by simp
  then have "2 * (2 ^ ?k - n) * ?A \<le> 2 ^ ?k * ?A"
    by (rule mult_le_mono1)
  also have "2 ^ ?k * ?A = 2 ^ (8 * nbytes n)"
    using nbytes_covers [of n] by (simp flip: power_add)
  finally show ?thesis
    by (simp add: card_rejected_blocks power_mult mult.assoc)
qed

lemma fair_tape:
  assumes "0 < n"
  shows "fair (bytes (tape bs)) n"
  unfolding fair_def
proof
  fix pos
  let ?p = "pos + length bs * nbytes n"
  let ?u = "\<lparr>bytes = bytes (tape bs), consumed = ?p\<rparr>"
  have "length bs \<le> ?p"
    using nbytes_pos [OF assms] by (cases "nbytes n") simp_all
  then have "read_bytes ?u (nbytes n) = map (\<lambda>_. 0) [?p..<?p + nbytes n]"
    by (simp add: read_bytes_def tape_def)
  then have "masked n (read_bytes ?u (nbytes n)) = 0"
    by (simp add: masked_def from_bytes_zeros)
  with assms have "accepted n ?u" by (simp add: accepted_def)
  then show "\<exists>j. accepted n \<lparr>bytes = bytes (tape bs), consumed = pos + j * nbytes n\<rparr>"
    by blast
qed

lemma bit_length_6: "bit_length 6 = 3"
  by (simp add: bit_length.simps)

section \<open>Runs on concrete inputs\<close>

lemma bytes_tape_Nil: "bytes (tape []) = (\<lambda>_. 0)"
  by (simp add: tape_def)

lemma random_below_word_example:
  "random_below 2 (tape [0x01, 0x12, 0x34]) = Some (1, advance (tape [0x01, 0x12, 0x34]) 1)"
  by (subst random_below.simps)
    (simp add: nbytes_def bit_length.simps masked_def read_bytes_def from_bytes_def tape_def)

lemma random_below_number_example:
  "random_below 10001 (advance (tape [0x01, 0x12, 0x34]) 1) =
     Some (4660, advance (tape [0x01, 0x12, 0x34]) 3)"
  by (subst random_below.simps)
    (simp add: nbytes_def bit_length.simps masked_def read_bytes_def from_bytes_def tape_def
      advance_def upt_rec take_bit_eq_mod)

lemma length_characters: "length characters = 94"
  by (simp add: characters_def digits_def ascii_letters_def ascii_lowercase_def
      ascii_uppercase_def punctuation_def)

lemma distinct_characters: "distinct characters"
  by (simp add: characters_def digits_def ascii_letters_def ascii_lowercase_def
      ascii_uppercase_def punctuation_def)

section \<open>Rendering and entropy\<close>

lemma concat_with_separator:
  "ws \<noteq> [] \<Longrightarrow> concat (map (\<lambda>w. w @ sep) ws) = joined_with sep ws @ sep"
  by (induction sep ws rule: joined_with.induct) simp_all

lemma slice_to_drop_suffix: "slice_to (s @ t) (Some (- int (length t))) = (if t = [] then [] else s)"
  by (simp add: slice_to_def)

lemma joined_with_butlast:
  "ws \<noteq> [] \<Longrightarrow> joined_with sep ws = concat (map (\<lambda>w. w @ sep) (butlast ws)) @ last ws"
  by (induction sep ws rule: joined_with.induct) simp_all

section \<open>Conversion of an int to a float\<close>

lemma bit_length_le:
  assumes "m < 2 ^ k"
  shows "bit_length m \<le> k"
proof (cases "m = 0")
  case True
  then show ?thesis by (simp add: bit_length.simps)
next
  case False
  then have "0 < m" by simp
  then have "2 ^ (bit_length m - 1) \<le> m" by (rule bit_length_lower)
  with assms have "(2::nat) ^ (bit_length m - 1) < 2 ^ k" by (rule le_less_trans [rotated])
  then have "bit_length m - 1 < k" by (rule power_less_imp_less_exp [rotated]) simp
  then show ?thesis by linarith
qed

lemma round_to_double_exact: "m < 2 ^ 53 \<Longrightarrow> round_to_double m = m"
  using bit_length_le [of m 53] by (simp only: round_to_double_def if_True)

lemma round_to_double_lower:
  assumes "0 < m"
  shows "2 ^ (bit_length m - 1) \<le> round_to_double m"
proof (cases "bit_length m \<le> 53")
  case True
  with bit_length_lower [OF assms] show ?thesis
    by (simp only: round_to_double_def if_True)
next
  case False
  define shift where "shift = bit_length m - 53"
  define q where "q = m div 2 ^ shift"
  define r where "r = m mod 2 ^ shift"
  define p where "p = (52::nat)"
  from False have k: "bit_length m - 1 = p + shift"
    by (simp add: shift_def p_def)
  have "(2::nat) ^ p = 2 ^ (p + shift) div 2 ^ shift"
    by (simp only: power_add) simp
  also have "\<dots> \<le> q"
    unfolding q_def k [symmetric] using bit_length_lower [OF assms] by (rule div_le_mono)
  finally have "2 ^ p * 2 ^ shift \<le> q * 2 ^ shift"
    by (rule mult_le_mono1)
  moreover have "q * 2 ^ shift \<le>
      (if 2 * r > 2 ^ shift \<or> (2 * r = 2 ^ shift \<and> odd q) then q + 1 else q) * 2 ^ shift"
    by (rule mult_le_mono1) simp
  moreover have "round_to_double m =
      (if 2 * r > 2 ^ shift \<or> (2 * r = 2 ^ shift \<and> odd q) then q + 1 else q) * 2 ^ shift"
    using False by (simp only: round_to_double_def Let_def shift_def q_def r_def if_False)
  ultimately have "2 ^ p * 2 ^ shift \<le> round_to_double m"
    by (simp only: le_trans)
  then show ?thesis
    by (simp only: k power_add)
qed

lemma round_to_double_overflow:
  assumes "2 ^ 1024 \<le> m"
  shows "2 ^ 1024 \<le> round_to_double m"
proof -
  have "(0::nat) < 2 ^ 1024" by (rule zero_less_power) simp
  then have pos: "0 < m" using assms by (rule less_le_trans)
  have "(2::nat) ^ 1024 < 2 ^ bit_length m"
    using assms bit_length_upper [of m] by (rule le_less_trans)
  then have "1024 < bit_length m"
    by (rule power_less_imp_less_exp [rotated]) simp
  then have "1024 \<le> bit_length m - 1" by linarith
  then have "(2::nat) ^ 1024 \<le> 2 ^ (bit_length m - 1)"
    by (rule power_increasing) simp
  with round_to_double_lower [OF pos] show ?thesis by (rule le_trans [rotated])
qed


lemma py_float_overflow:
  assumes "2 ^ 1024 \<le> i"
  shows "py_float (PInt i) = Inl (OverflowError ''int too large to convert to float'')"
proof -
  have "(0::int) \<le> 2 ^ 1024" by (rule zero_le_power) simp
  then have "0 \<le> i" using assms by (rule order_trans)
  have "(2::nat) ^ 1024 = nat (2 ^ 1024)"
    by simp
  also have "\<dots> \<le> nat \<bar>i\<bar>"
    using assms \<open>0 \<le> i\<close> by (simp only: abs_of_nonneg nat_mono)
  finally have "2 ^ 1024 \<le> round_to_double (nat \<bar>i\<bar>)"
    by (rule round_to_double_overflow)
  then show ?thesis by (simp only: py_float.simps if_True)
qed

lemma py_float_exact:
  assumes "0 \<le> i" and "i < 2 ^ 53"
  shows "py_float (PInt i) = Inr (of_int i)"
proof -
  have small: "nat \<bar>i\<bar> < 2 ^ 53"
    using assms by simp
  then have r: "round_to_double (nat \<bar>i\<bar>) = nat \<bar>i\<bar>"
    by (rule round_to_double_exact)
  have "(2::nat) ^ 53 \<le> 2 ^ 1024" by (rule power_increasing) simp_all
  with small have "nat \<bar>i\<bar> < 2 ^ 1024" by (rule less_le_trans)
  then have "\<not> 2 ^ 1024 \<le> round_to_double (nat \<bar>i\<bar>)"
    by (simp only: r not_le)
  moreover have "real (nat \<bar>i\<bar>) = of_int i"
    using assms(1) by simp
  ultimately show ?thesis
    using assms(1) by (simp only: py_float.simps r if_False not_less [symmetric])
qed

section \<open>Results\<close>

text \<open>
  C1. The numbers of a passphrase are meant to lie between the configured \<open>randnum_min\<close>
  and \<open>randnum_max\<close>. \<open>generate\<close> draws them between the constants \<open>MIN_NUM\<close> and
  \<open>MAX_NUM\<close> instead: on the instance that the setters produce for one word, one number
  and the range from 20000 to 30000, and on a source that delivers the bytes 01 12 34,
  it returns the number 4660, which is outside the configured range.
\<close>

theorem generate_ignores_configured_range:
  "snd (set_randnum_max (PInt 30000) (snd (set_randnum_min (PInt 20000)
     (snd (set_amount_n (PInt 1) (snd (set_amount_w (PInt 1)
       (init_default [''correct'', ''horse''] 1)))))))) =
     (init_default [''correct'', ''horse''] 1)
       \<lparr>amount_w := 1, amount_n := 1, randnum_min := 20000, randnum_max := 30000\<rparr> \<and>
   generate ((init_default [''correct'', ''horse''] 1)
      \<lparr>amount_w := 1, amount_n := 1, randnum_min := 20000, randnum_max := 30000\<rparr>)
     (tape [0x01, 0x12, 0x34]) =
   Some (Inr [Word ''horse'', Num 4660],
     (init_default [''correct'', ''horse''] 1)
      \<lparr>amount_w := 1, amount_n := 1, randnum_min := 20000, randnum_max := 30000,
        last_result := Some [Word ''horse'', Num 4660]\<rparr>,
     advance (tape [0x01, 0x12, 0x34]) 3) \<and>
   \<not> (randnum_min ((init_default [''correct'', ''horse''] 1)
          \<lparr>amount_w := 1, amount_n := 1, randnum_min := 20000, randnum_max := 30000\<rparr>) \<le> 4660 \<and>
      4660 \<le> randnum_max ((init_default [''correct'', ''horse''] 1)
          \<lparr>amount_w := 1, amount_n := 1, randnum_min := 20000, randnum_max := 30000\<rparr>))"
proof -
  have "generate ((init_default [''correct'', ''horse''] 1)
      \<lparr>amount_w := 1, amount_n := 1, randnum_min := 20000, randnum_max := 30000\<rparr>)
     (tape [0x01, 0x12, 0x34]) =
   Some (Inr [Word ''horse'', Num 4660],
     (init_default [''correct'', ''horse''] 1)
      \<lparr>amount_w := 1, amount_n := 1, randnum_min := 20000, randnum_max := 30000,
        last_result := Some [Word ''horse'', Num 4660]\<rparr>,
     advance (tape [0x01, 0x12, 0x34]) 3)"
    using random_below_word_example random_below_number_example
    by (simp add: generate_def init_default_def draw_word_def draw_number_def randchoice_def
        randbetween_def MIN_NUM_def MAX_NUM_def numeral_2_eq_2)
  moreover have "snd (set_randnum_max (PInt 30000) (snd (set_randnum_min (PInt 20000)
     (snd (set_amount_n (PInt 1) (snd (set_amount_w (PInt 1)
       (init_default [''correct'', ''horse''] 1)))))))) =
     (init_default [''correct'', ''horse''] 1)
       \<lparr>amount_w := 1, amount_n := 1, randnum_min := 20000, randnum_max := 30000\<rparr>"
    by (simp add: set_randnum_max_def set_randnum_min_def set_amount_n_def set_amount_w_def
        init_default_def)
  ultimately show ?thesis by simp
qed

text \<open>
  C2. On a non-empty wordlist, and on a source on which the draws return, \<open>generate\<close>
  returns \<open>amount_w\<close> tokens that are words of the configured wordlist followed by
  \<open>amount_n\<close> number tokens (each between \<open>MIN_NUM\<close> and \<open>MAX_NUM\<close>), in this order,
  and the instance holds the returned sequence as \<open>last_result\<close>.
\<close>

theorem generate_tokens:
  assumes "wordlist self \<noteq> []"
    and "fair (bytes u) (length (wordlist self))"
    and "fair (bytes u) (nat (MAX_NUM - MIN_NUM + 1))"
  shows "\<exists>ws ns u'.
           generate self u = Some (Inr (ws @ ns), self\<lparr>last_result := Some (ws @ ns)\<rparr>, u') \<and>
           length ws = nat (amount_w self) \<and> length ns = nat (amount_n self) \<and>
           length (ws @ ns) = nat (amount_w self) + nat (amount_n self) \<and>
           (\<forall>t \<in> set ws. \<exists>w \<in> set (wordlist self). t = Word w) \<and>
           (\<forall>t \<in> set ns. \<exists>i. t = Num i \<and> MIN_NUM \<le> i \<and> i \<le> MAX_NUM)"
proof -
  let ?src = "bytes u"
  have words: "\<exists>t u'. draw_word (wordlist self) v = Some (Inr t, u') \<and>
                 (\<exists>w \<in> set (wordlist self). t = Word w) \<and> bytes u' = ?src"
    if "bytes v = ?src" for v
    using draw_word_fair [of "wordlist self" v] assms(1,2) that by fastforce
  have numbers: "\<exists>t u'. draw_number MIN_NUM MAX_NUM v = Some (Inr t, u') \<and>
                   (\<exists>i. t = Num i \<and> MIN_NUM \<le> i \<and> i \<le> MAX_NUM) \<and> bytes u' = ?src"
    if "bytes v = ?src" for v
    using draw_number_fair [of MIN_NUM MAX_NUM v] assms(3) that
    by (fastforce simp: MIN_NUM_def MAX_NUM_def)
  from append_draws_total [of ?src "draw_word (wordlist self)"
      "\<lambda>t. \<exists>w \<in> set (wordlist self). t = Word w" u "nat (amount_w self)" "[]", OF words]
  obtain ws u1 where
    w: "append_draws (nat (amount_w self)) (draw_word (wordlist self)) [] u = Some (Inr ws, u1)"
      "length ws = nat (amount_w self)" "\<forall>t \<in> set ws. \<exists>w \<in> set (wordlist self). t = Word w"
      "bytes u1 = ?src"
    by auto
  from append_draws_total [of ?src "draw_number MIN_NUM MAX_NUM"
      "\<lambda>t. \<exists>i. t = Num i \<and> MIN_NUM \<le> i \<and> i \<le> MAX_NUM" u1 "nat (amount_n self)" ws,
      OF numbers w(4)]
  obtain ns u2 where
    n: "append_draws (nat (amount_n self)) (draw_number MIN_NUM MAX_NUM) ws u1 =
          Some (Inr (ws @ ns), u2)"
      "length ns = nat (amount_n self)"
      "\<forall>t \<in> set ns. \<exists>i. t = Num i \<and> MIN_NUM \<le> i \<and> i \<le> MAX_NUM"
    by auto
  have "generate self u = Some (Inr (ws @ ns), self\<lparr>last_result := Some (ws @ ns)\<rparr>, u2)"
    using assms(1) w(1) n(1) by (simp add: generate_def)
  with w(2,3) n(2,3) show ?thesis
    by (intro exI [of _ ws] exI [of _ ns] exI [of _ u2]) simp
qed

theorem generate_tokens_witness:
  "wordlist ((init_default [''correct'', ''horse''] 1)\<lparr>amount_w := 3, amount_n := 2\<rparr>) \<noteq> [] \<and>
   fair (bytes (tape [])) (length [''correct'', ''horse'']) \<and>
   fair (bytes (tape [])) (nat (MAX_NUM - MIN_NUM + 1)) \<and>
   (\<exists>ws ns u'.
      generate ((init_default [''correct'', ''horse''] 1)\<lparr>amount_w := 3, amount_n := 2\<rparr>)
        (tape []) =
        Some (Inr (ws @ ns),
          (init_default [''correct'', ''horse''] 1)
            \<lparr>amount_w := 3, amount_n := 2, last_result := Some (ws @ ns)\<rparr>, u') \<and>
      length ws = 3 \<and> length ns = 2 \<and>
      (\<forall>t \<in> set ws. t = Word ''correct'' \<or> t = Word ''horse'') \<and>
      (\<forall>t \<in> set ns. \<exists>i. t = Num i \<and> MIN_NUM \<le> i \<and> i \<le> MAX_NUM))"
proof -
  let ?self = "(init_default [''correct'', ''horse''] 1)\<lparr>amount_w := 3, amount_n := 2\<rparr>"
  have w: "wordlist ?self \<noteq> []"
    by (simp add: init_default_def)
  have f1: "fair (bytes (tape [])) (length (wordlist ?self))"
    using fair_zero [of "Suc (Suc 0)"] by (simp add: bytes_tape_Nil init_default_def)
  have f2: "fair (bytes (tape [])) (nat (MAX_NUM - MIN_NUM + 1))"
    using fair_zero [of "nat (MAX_NUM - MIN_NUM + 1)"]
    by (simp add: bytes_tape_Nil MIN_NUM_def MAX_NUM_def)
  from generate_tokens [OF w f1 f2] obtain ws ns u' where
    a: "generate ?self (tape []) = Some (Inr (ws @ ns), ?self\<lparr>last_result := Some (ws @ ns)\<rparr>, u')"
    and b: "length ws = nat (amount_w ?self)" "length ns = nat (amount_n ?self)"
    and c: "\<forall>t \<in> set ws. \<exists>w \<in> set (wordlist ?self). t = Word w"
    and d: "\<forall>t \<in> set ns. \<exists>i. t = Num i \<and> MIN_NUM \<le> i \<and> i \<le> MAX_NUM"
    by blast
  from b have b': "length ws = 3" "length ns = 2"
    by (simp_all add: init_default_def)
  from c have c': "\<forall>t \<in> set ws. t = Word ''correct'' \<or> t = Word ''horse''"
    by (simp add: init_default_def)
  have f1': "fair (bytes (tape [])) (length [''correct'', ''horse''])"
    using f1 by (simp add: init_default_def)
  from w f1' f2 a b' c' d show ?thesis by blast
qed

text \<open>
  C3. When the configured wordlist has no entries, \<open>generate\<close> raises the exception for an
  empty wordlist (the \<open>ValueError\<close> that is the specification's \<open>EmptyAlphabet\<close>). The
  check comes first: the call returns, no byte of the random source has been consumed,
  and the instance, with its \<open>last_result\<close>, is the one before the call.
\<close>

theorem generate_empty_wordlist:
  assumes "wordlist self = []"
  shows "generate self u =
           Some (Inl (ValueError (''wordlist can'' @ [CHR 0x27] @ ''t be empty'')), self, u)"
  using assms by (simp add: generate_def)

theorem generate_empty_wordlist_witness:
  "wordlist (init_default [] 0) = [] \<and>
   generate (init_default [] 0) \<lparr>bytes = (\<lambda>_. 0), consumed = 0\<rparr> =
     Some (Inl (ValueError (''wordlist can'' @ [CHR 0x27] @ ''t be empty'')),
           init_default [] 0, \<lparr>bytes = (\<lambda>_. 0), consumed = 0\<rparr>) \<and>
   last_result (init_default [] 0) = Some []"
  using generate_empty_wordlist [of "init_default [] 0" "\<lparr>bytes = (\<lambda>_. 0), consumed = 0\<rparr>"]
  by (simp add: init_default_def)

text \<open>
  C4. On a source on which the draws return, \<open>generate_password\<close> returns \<open>passwordlen\<close>
  characters, each one of the 94 distinct characters \<open>digits + ascii_letters + punctuation\<close>,
  whatever the configured wordlist is, and the instance holds the returned sequence as
  \<open>last_result\<close>.
\<close>

theorem generate_password_characters:
  assumes "fair (bytes u) 94"
  shows "\<exists>password u'.
           generate_password self u =
             Some (Inr password, self\<lparr>last_result := Some password\<rparr>, u') \<and>
           generate_password (self\<lparr>wordlist := words\<rparr>) u =
             Some (Inr password, self\<lparr>wordlist := words, last_result := Some password\<rparr>, u') \<and>
           length password = nat (passwordlen self) \<and>
           (0 \<le> passwordlen self \<longrightarrow> int (length password) = passwordlen self) \<and>
           (\<forall>t \<in> set password. \<exists>c \<in> set (digits @ ascii_letters @ punctuation). t = Word [c]) \<and>
           length (digits @ ascii_letters @ punctuation) = 94 \<and>
           distinct (digits @ ascii_letters @ punctuation)"
proof -
  let ?src = "bytes u"
  let ?P = "\<lambda>t. \<exists>c \<in> set (digits @ ascii_letters @ punctuation). t = Word [c]"
  have chars: "\<exists>t u'. draw_word characters v = Some (Inr t, u') \<and> ?P t \<and> bytes u' = ?src"
    if "bytes v = ?src" for v
  proof -
    have "characters \<noteq> []" using length_characters by auto
    from draw_word_fair [OF this, of v] assms that obtain w u' where
      "draw_word characters v = Some (Inr (Word w), u')" "w \<in> set characters" "bytes u' = ?src"
      by (auto simp: length_characters)
    then show ?thesis by (auto simp: characters_def)
  qed
  from append_draws_total [of ?src "draw_word characters" ?P u "nat (passwordlen self)" "[]",
      OF chars]
  obtain password u' where
    p: "append_draws (nat (passwordlen self)) (draw_word characters) [] u =
          Some (Inr password, u')"
      "length password = nat (passwordlen self)" "\<forall>t \<in> set password. ?P t"
    by auto
  have "generate_password self u = Some (Inr password, self\<lparr>last_result := Some password\<rparr>, u')"
    and "generate_password (self\<lparr>wordlist := words\<rparr>) u =
      Some (Inr password, self\<lparr>wordlist := words, last_result := Some password\<rparr>, u')"
    using p(1) by (simp_all add: generate_password_def)
  moreover have "length (digits @ ascii_letters @ punctuation) = 94"
    using length_characters by (simp add: characters_def)
  moreover have "distinct (digits @ ascii_letters @ punctuation)"
    by (simp add: digits_def ascii_letters_def ascii_lowercase_def ascii_uppercase_def
        punctuation_def)
  ultimately show ?thesis using p(2,3)
    by (intro exI [of _ password] exI [of _ u']) simp
qed

theorem generate_password_characters_witness:
  "fair (bytes (tape [])) 94 \<and>
   (\<exists>password u'.
      generate_password (init_default [''correct'', ''horse''] 1) (tape []) =
        Some (Inr password,
          (init_default [''correct'', ''horse''] 1)\<lparr>last_result := Some password\<rparr>, u') \<and>
      generate_password ((init_default [''correct'', ''horse''] 1)\<lparr>wordlist := []\<rparr>) (tape []) =
        Some (Inr password,
          (init_default [''correct'', ''horse''] 1)
            \<lparr>wordlist := [], last_result := Some password\<rparr>, u') \<and>
      length password = 12 \<and>
      (\<forall>t \<in> set password. \<exists>c \<in> set (digits @ ascii_letters @ punctuation). t = Word [c]))"
proof -
  let ?self = "init_default [''correct'', ''horse''] 1"
  have f: "fair (bytes (tape [])) 94"
    using fair_zero [of 94] by (simp add: bytes_tape_Nil)
  from generate_password_characters [OF f, of ?self "[]"] obtain password u' where
    a: "generate_password ?self (tape []) =
          Some (Inr password, ?self\<lparr>last_result := Some password\<rparr>, u')"
    and b: "generate_password (?self\<lparr>wordlist := []\<rparr>) (tape []) =
          Some (Inr password, ?self\<lparr>wordlist := [], last_result := Some password\<rparr>, u')"
    and c: "length password = nat (passwordlen ?self)"
    and d: "\<forall>t \<in> set password. \<exists>c \<in> set (digits @ ascii_letters @ punctuation). t = Word [c]"
    by blast
  from c have "length password = 12" by (simp add: init_default_def)
  with f a b d show ?thesis by blast
qed

text \<open>
  C5. For \<open>n > 0\<close>, \<open>random_below n\<close> reads the least number of whole bytes that hold the
  bit length of \<open>n\<close>, keeps the low \<open>bit_length n\<close> bits, returns the masked value when it
  is below \<open>n\<close> and tries again on fresh bytes otherwise. What it returns is below \<open>n\<close>;
  it returns on every source on which some attempt is accepted, and an attempt rejects
  at most half of the blocks. It has no bias: for every number of attempts, the number
  of byte strings on which it returns \<open>v\<close> after exactly that many attempts is the same for
  every \<open>v\<close> below \<open>n\<close>.
\<close>

theorem random_below_unbiased:
  assumes "0 < n"
  shows "2 ^ (bit_length n - 1) \<le> n \<and> n < 2 ^ bit_length n \<and>
         bit_length n \<le> 8 * nbytes n \<and> 8 * (nbytes n - 1) < bit_length n \<and>
         masked n (read_bytes u (nbytes n)) =
           from_bytes (read_bytes u (nbytes n)) mod 2 ^ bit_length n \<and>
         (masked n (read_bytes u (nbytes n)) < n \<longrightarrow>
            random_below n u =
              Some (masked n (read_bytes u (nbytes n)), advance u (nbytes n))) \<and>
         (\<not> masked n (read_bytes u (nbytes n)) < n \<longrightarrow>
            random_below n u = random_below n (advance u (nbytes n))) \<and>
         (random_below n u = Some (v, u') \<longrightarrow> v < n) \<and>
         (fair (bytes u) n \<longrightarrow> (\<exists>v u'. random_below n u = Some (v, u') \<and> v < n)) \<and>
         (\<forall>v<n. card (returns_at n j v) =
            ((2 ^ bit_length n - n) * 2 ^ (8 * nbytes n - bit_length n)) ^ j *
            2 ^ (8 * nbytes n - bit_length n)) \<and>
         2 * card (rejected_blocks n) \<le> 256 ^ nbytes n"
proof -
  have "masked n (read_bytes u (nbytes n)) < n \<longrightarrow>
      random_below n u = Some (masked n (read_bytes u (nbytes n)), advance u (nbytes n))"
    using random_below_accept [of n u] by (simp add: accepted_def)
  moreover have "\<not> masked n (read_bytes u (nbytes n)) < n \<longrightarrow>
      random_below n u = random_below n (advance u (nbytes n))"
    using random_below_reject [of n u] by (simp add: accepted_def)
  moreover have "random_below n u = Some (v, u') \<longrightarrow> v < n"
    using random_below_sound [of n u v u'] by blast
  moreover have "fair (bytes u) n \<longrightarrow> (\<exists>v u'. random_below n u = Some (v, u') \<and> v < n)"
    using random_below_fair [of u n] by blast
  moreover have "\<forall>v<n. card (returns_at n j v) =
      ((2 ^ bit_length n - n) * 2 ^ (8 * nbytes n - bit_length n)) ^ j *
      2 ^ (8 * nbytes n - bit_length n)"
    using card_returns_at [OF assms] by blast
  moreover have "masked n (read_bytes u (nbytes n)) =
      from_bytes (read_bytes u (nbytes n)) mod 2 ^ bit_length n"
    by (simp add: masked_def take_bit_eq_mod)
  ultimately show ?thesis
    using bit_length_lower [OF assms] bit_length_upper [of n] nbytes_covers [of n]
      nbytes_minimal [OF assms] rejected_at_most_half [OF assms]
    by blast
qed

theorem random_below_unbiased_witness:
  "0 < (6::nat) \<and> fair (bytes (tape [0x07, 0x0D])) 6 \<and>
   random_below 6 (tape [0x07, 0x0D]) = Some (5, advance (tape [0x07, 0x0D]) 2) \<and>
   5 < (6::nat) \<and> card (returns_at 6 1 5) = 2048 \<and> card (returns_at 6 1 0) = 2048"
proof -
  let ?u = "tape [0x07, 0x0D]"
  have n: "0 < (6::nat)" by simp
  have b: "nbytes 6 = 1" by (simp add: nbytes_def bit_length_6)
  have m0: "masked 6 (read_bytes ?u (nbytes 6)) = 7"
    by (simp add: b masked_def bit_length_6 read_bytes_def from_bytes_def tape_def)
  have m1: "masked 6 (read_bytes (advance ?u (nbytes 6)) (nbytes 6)) = 5"
    by (simp add: b masked_def bit_length_6 read_bytes_def from_bytes_def tape_def advance_def
        take_bit_eq_mod)
  from random_below_unbiased [OF n, of ?u] m0
  have "random_below 6 ?u = random_below 6 (advance ?u (nbytes 6))" by simp
  moreover from random_below_unbiased [OF n, of "advance ?u (nbytes 6)"] m1
  have "random_below 6 (advance ?u (nbytes 6)) =
      Some (5, advance (advance ?u (nbytes 6)) (nbytes 6))" by simp
  ultimately have r: "random_below 6 ?u = Some (5, advance ?u 2)"
    by (simp add: b advance_advance numeral_2_eq_2)
  from random_below_unbiased [OF n, of _ _ _ 1]
  have "card (returns_at 6 1 5) = 2048" "card (returns_at 6 1 0) = 2048"
    by (simp_all add: b bit_length_6)
  with n r fair_tape [OF n, of "[0x07, 0x0D]"] show ?thesis by simp
qed

text \<open>
  C6, as stated, fails in its last part: the setter of \<open>entropy_bits_req\<close> does not accept
  every non-negative int. The int \<open>2 ^ 1024\<close> passes the type test and the sign test, and
  the conversion to a float then raises \<open>OverflowError\<close>; nothing is stored.
\<close>

theorem entropy_bits_req_any_int_counterexample:
  "is_number (PInt (2 ^ 1024)) \<and> 0 \<le> num_val (PInt (2 ^ 1024)) \<and>
   set_entropy_bits_req (PInt (2 ^ 1024)) (init_default [''correct'', ''horse''] 1) =
     (Inl (OverflowError ''int too large to convert to float''),
      init_default [''correct'', ''horse''] 1)"
proof -
  have "py_float (PInt (2 ^ 1024)) = Inl (OverflowError ''int too large to convert to float'')"
    by (rule py_float_overflow) simp
  then show ?thesis
    by (simp add: set_entropy_bits_req_def)
qed


text \<open>
  C6, amended. Each of the setters of \<open>randnum_min\<close>, \<open>randnum_max\<close>, \<open>amount_w\<close>,
  \<open>amount_n\<close> and \<open>passwordlen\<close> raises \<open>TypeError\<close> on a value that is not an int and
  \<open>ValueError\<close> on a negative int, and the instance is then the one before the
  assignment; both exceptions are the specification's \<open>InvalidConfiguration\<close>. The
  setter of \<open>entropy_bits_req\<close> does the same for values that are neither int nor float
  and for negative numbers. It stores a non-negative float as it is and a non-negative
  int as the nearest double (the int itself below \<open>2 ^ 53\<close>), unless that double would
  reach \<open>2 ^ 1024\<close>, as it does for every int from \<open>2 ^ 1024\<close> on: then it raises
  \<open>OverflowError\<close> and the instance is the one before the assignment. Assigning \<open>-1\<close> to
  \<open>amount_w\<close> raises at the assignment.
\<close>

theorem setters_reject:
  "(\<not> is_int v \<longrightarrow>
      set_randnum_min v self = (Inl (TypeError ''randnum_min can only be int''), self) \<and>
      set_randnum_max v self = (Inl (TypeError ''randnum_max can only be int''), self) \<and>
      set_amount_w v self = (Inl (TypeError ''amount_w can only be int''), self) \<and>
      set_amount_n v self = (Inl (TypeError ''amount_n can only be int''), self) \<and>
      set_passwordlen v self = (Inl (TypeError ''passwordlen can only be int''), self)) \<and>
   (i < 0 \<longrightarrow>
      set_randnum_min (PInt i) self =
        (Inl (ValueError ''randnum_min should be greater than 0''), self) \<and>
      set_randnum_max (PInt i) self =
        (Inl (ValueError ''randnum_max should be greater than 0''), self) \<and>
      set_amount_w (PInt i) self = (Inl (ValueError ''amount_w should be greater than 0''), self) \<and>
      set_amount_n (PInt i) self = (Inl (ValueError ''amount_n should be greater than 0''), self) \<and>
      set_passwordlen (PInt i) self =
        (Inl (ValueError ''passwordlen should be greater than 0''), self)) \<and>
   (\<not> is_number v \<longrightarrow>
      set_entropy_bits_req v self =
        (Inl (TypeError ''entropy_bits_req can only be int or float''), self)) \<and>
   (is_number v \<and> num_val v < 0 \<longrightarrow>
      set_entropy_bits_req v self =
        (Inl (ValueError ''entropy_bits_req should be greater than 0''), self)) \<and>
   (0 \<le> x \<longrightarrow>
      set_entropy_bits_req (PFloat x) self = (Inr (), self\<lparr>entropy_bits_req := x\<rparr>)) \<and>
   (0 \<le> k \<and> round_to_double (nat k) < 2 ^ 1024 \<longrightarrow>
      set_entropy_bits_req (PInt k) self =
        (Inr (), self\<lparr>entropy_bits_req := real (round_to_double (nat k))\<rparr>)) \<and>
   (0 \<le> k \<and> k < 2 ^ 53 \<longrightarrow>
      set_entropy_bits_req (PInt k) self = (Inr (), self\<lparr>entropy_bits_req := of_int k\<rparr>)) \<and>
   (0 \<le> k \<and> 2 ^ 1024 \<le> round_to_double (nat k) \<longrightarrow>
      set_entropy_bits_req (PInt k) self =
        (Inl (OverflowError ''int too large to convert to float''), self)) \<and>
   (2 ^ 1024 \<le> k \<longrightarrow>
      set_entropy_bits_req (PInt k) self =
        (Inl (OverflowError ''int too large to convert to float''), self)) \<and>
   set_amount_w (PInt (- 1)) self =
     (Inl (ValueError ''amount_w should be greater than 0''), self)"
proof -
  have ints: "(\<not> is_int v \<longrightarrow>
      set_randnum_min v self = (Inl (TypeError ''randnum_min can only be int''), self) \<and>
      set_randnum_max v self = (Inl (TypeError ''randnum_max can only be int''), self) \<and>
      set_amount_w v self = (Inl (TypeError ''amount_w can only be int''), self) \<and>
      set_amount_n v self = (Inl (TypeError ''amount_n can only be int''), self) \<and>
      set_passwordlen v self = (Inl (TypeError ''passwordlen can only be int''), self)) \<and>
   (i < 0 \<longrightarrow>
      set_randnum_min (PInt i) self =
        (Inl (ValueError ''randnum_min should be greater than 0''), self) \<and>
      set_randnum_max (PInt i) self =
        (Inl (ValueError ''randnum_max should be greater than 0''), self) \<and>
      set_amount_w (PInt i) self = (Inl (ValueError ''amount_w should be greater than 0''), self) \<and>
      set_amount_n (PInt i) self = (Inl (ValueError ''amount_n should be greater than 0''), self) \<and>
      set_passwordlen (PInt i) self =
        (Inl (ValueError ''passwordlen should be greater than 0''), self)) \<and>
   set_amount_w (PInt (- 1)) self =
     (Inl (ValueError ''amount_w should be greater than 0''), self)"
    by (simp add: set_randnum_min_def set_randnum_max_def set_amount_w_def set_amount_n_def
        set_passwordlen_def)
  have rejects: "(\<not> is_number v \<longrightarrow>
      set_entropy_bits_req v self =
        (Inl (TypeError ''entropy_bits_req can only be int or float''), self)) \<and>
   (is_number v \<and> num_val v < 0 \<longrightarrow>
      set_entropy_bits_req v self =
        (Inl (ValueError ''entropy_bits_req should be greater than 0''), self))"
    by (simp add: set_entropy_bits_req_def)
  have floats: "0 \<le> x \<longrightarrow>
      set_entropy_bits_req (PFloat x) self = (Inr (), self\<lparr>entropy_bits_req := x\<rparr>)"
    by (simp add: set_entropy_bits_req_def)
  have rounded: "0 \<le> k \<and> round_to_double (nat k) < 2 ^ 1024 \<longrightarrow>
      set_entropy_bits_req (PInt k) self =
        (Inr (), self\<lparr>entropy_bits_req := real (round_to_double (nat k))\<rparr>)"
    by (simp add: set_entropy_bits_req_def not_le [symmetric])
  have exact: "0 \<le> k \<and> k < 2 ^ 53 \<longrightarrow>
      set_entropy_bits_req (PInt k) self = (Inr (), self\<lparr>entropy_bits_req := of_int k\<rparr>)"
  proof (intro impI, elim conjE)
    assume k: "0 \<le> k" "k < 2 ^ 53"
    then have "py_float (PInt k) = Inr (of_int k)" by (rule py_float_exact)
    with k(1) show "set_entropy_bits_req (PInt k) self =
        (Inr (), self\<lparr>entropy_bits_req := of_int k\<rparr>)"
      by (simp add: set_entropy_bits_req_def del: py_float.simps)
  qed
  have over: "0 \<le> k \<and> 2 ^ 1024 \<le> round_to_double (nat k) \<longrightarrow>
      set_entropy_bits_req (PInt k) self =
        (Inl (OverflowError ''int too large to convert to float''), self)"
    by (simp add: set_entropy_bits_req_def)
  have over': "2 ^ 1024 \<le> k \<longrightarrow>
      set_entropy_bits_req (PInt k) self =
        (Inl (OverflowError ''int too large to convert to float''), self)"
  proof
    assume k: "2 ^ 1024 \<le> k"
    have "(0::int) \<le> 2 ^ 1024" by simp
    then have "0 \<le> k" using k by (rule order_trans)
    moreover from k have "py_float (PInt k) =
        Inl (OverflowError ''int too large to convert to float'')"
      by (rule py_float_overflow)
    ultimately show "set_entropy_bits_req (PInt k) self =
        (Inl (OverflowError ''int too large to convert to float''), self)"
      by (simp add: set_entropy_bits_req_def del: py_float.simps)
  qed
  from ints rejects floats rounded exact over over' show ?thesis by blast
qed

theorem setters_reject_witness:
  "set_amount_w (PInt (- 1)) (init_default [''correct'', ''horse''] 1) =
     (Inl (ValueError ''amount_w should be greater than 0''),
      init_default [''correct'', ''horse''] 1) \<and>
   set_passwordlen (PFloat 12) (init_default [''correct'', ''horse''] 1) =
     (Inl (TypeError ''passwordlen can only be int''), init_default [''correct'', ''horse''] 1) \<and>
   set_entropy_bits_req (PStr ''77'') (init_default [''correct'', ''horse''] 1) =
     (Inl (TypeError ''entropy_bits_req can only be int or float''),
      init_default [''correct'', ''horse''] 1) \<and>
   set_entropy_bits_req (PFloat (- 1 / 2)) (init_default [''correct'', ''horse''] 1) =
     (Inl (ValueError ''entropy_bits_req should be greater than 0''),
      init_default [''correct'', ''horse''] 1) \<and>
   set_entropy_bits_req (PFloat (161 / 2)) (init_default [''correct'', ''horse''] 1) =
     (Inr (), (init_default [''correct'', ''horse''] 1)\<lparr>entropy_bits_req := 161 / 2\<rparr>) \<and>
   set_entropy_bits_req (PInt 80) (init_default [''correct'', ''horse''] 1) =
     (Inr (), (init_default [''correct'', ''horse''] 1)\<lparr>entropy_bits_req := 80\<rparr>) \<and>
   set_entropy_bits_req (PInt (10 ^ 400)) (init_default [''correct'', ''horse''] 1) =
     (Inl (OverflowError ''int too large to convert to float''),
      init_default [''correct'', ''horse''] 1)"
proof -
  let ?self = "init_default [''correct'', ''horse''] 1"
  have big: "(2::int) ^ 1024 \<le> 10 ^ 400" by simp
  from setters_reject [of "PFloat 12" ?self "- 1"]
  have a: "set_amount_w (PInt (- 1)) ?self =
      (Inl (ValueError ''amount_w should be greater than 0''), ?self)"
    and b: "set_passwordlen (PFloat 12) ?self =
      (Inl (TypeError ''passwordlen can only be int''), ?self)"
    by simp_all
  from setters_reject [of "PStr ''77''" ?self]
  have c: "set_entropy_bits_req (PStr ''77'') ?self =
      (Inl (TypeError ''entropy_bits_req can only be int or float''), ?self)"
    by simp
  from setters_reject [of "PFloat (- 1 / 2)" ?self _ "161 / 2" 80]
  have d: "set_entropy_bits_req (PFloat (- 1 / 2)) ?self =
      (Inl (ValueError ''entropy_bits_req should be greater than 0''), ?self)"
    and e: "set_entropy_bits_req (PFloat (161 / 2)) ?self =
      (Inr (), ?self\<lparr>entropy_bits_req := 161 / 2\<rparr>)"
    and f: "set_entropy_bits_req (PInt 80) ?self = (Inr (), ?self\<lparr>entropy_bits_req := 80\<rparr>)"
    by simp_all
  from setters_reject [of _ ?self _ _ "10 ^ 400"] big
  have g: "set_entropy_bits_req (PInt (10 ^ 400)) ?self =
      (Inl (OverflowError ''int too large to convert to float''), ?self)"
    by blast
  from a b c d e f g show ?thesis by blast
qed

text \<open>
  C7. \<open>words_amount_needed\<close> is the calculator's \<open>words_amount_needed\<close> applied to the
  entropy target, the entropy per word (the cached value for the built-in wordlist,
  \<open>entropy_bits\<close> of the wordlist otherwise), the entropy of the range from \<open>randnum_min\<close>
  to \<open>randnum_max\<close>, and \<open>amount_n\<close>; a failure of one of the entropy computations is
  the outcome of the call. The instance after the call is the instance before it.
\<close>

theorem words_amount_needed_delegates:
  "words_amount_needed self =
     (case calc_entropy_bits_nrange (of_int (randnum_min self)) (of_int (randnum_max self)) of
        Inl e \<Rightarrow> Inl e
      | Inr entropy_n \<Rightarrow>
          (case (if external_wordlist self then entropy_bits (map PStr (wordlist self))
                 else Inr (wordlist_entropy_bits self)) of
             Inl e \<Rightarrow> Inl e
           | Inr entropy_w \<Rightarrow>
               calc_words_amount_needed (entropy_bits_req self) entropy_w entropy_n
                 (amount_n self)),
      self)"
  by (simp add: words_amount_needed_def entropy_bits_def split: sum.splits)

theorem words_amount_needed_delegates_witness:
  "words_amount_needed (init_default [''correct'', ''horse''] (129 / 10)) =
     (Inr 6, init_default [''correct'', ''horse''] (129 / 10))"
  using words_amount_needed_delegates [of "init_default [''correct'', ''horse''] (129 / 10)"]
  by (simp add: init_default_def calc_entropy_bits_nrange_def calc_words_amount_needed_def
      MIN_NUM_def MAX_NUM_def ENTROPY_BITS_MIN_def ceiling_eq_iff)

text \<open>
  C8. With a result of at least one token and a separator of at least one character, the
  string conversion is the textual forms of the tokens joined by the separator: every
  token but the last is followed by the separator, the last one is not. The words
  correct, horse, battery, staple with the separator \<open>-\<close> give
  \<open>correct-horse-battery-staple\<close>.
\<close>

theorem to_str_joined:
  "(last_result self = Some res \<and> res \<noteq> [] \<and> separator self \<noteq> [] \<longrightarrow>
      to_str self = joined_with (separator self) (map str_token res) \<and>
      to_str self =
        concat (map (\<lambda>t. str_token t @ separator self) (butlast res)) @ str_token (last res)) \<and>
   to_str (self\<lparr>last_result := Some [Word ''correct'', Word ''horse'', Word ''battery'',
               Word ''staple''], separator := ''-''\<rparr>) = ''correct-horse-battery-staple''"
proof -
  have "to_str self = joined_with (separator self) (map str_token res)"
    if "last_result self = Some res" "res \<noteq> []" "separator self \<noteq> []"
    using that
    by (simp add: to_str_def concat_with_separator slice_to_drop_suffix del: map_map)
  moreover have "joined_with (separator self) (map str_token res) =
      concat (map (\<lambda>t. str_token t @ separator self) (butlast res)) @ str_token (last res)"
    if "res \<noteq> []"
    using that joined_with_butlast [of "map str_token res" "separator self"]
    by (simp add: map_butlast [symmetric] last_map comp_def)
  moreover have "to_str (self\<lparr>last_result := Some [Word ''correct'', Word ''horse'',
      Word ''battery'', Word ''staple''], separator := ''-''\<rparr>) = ''correct-horse-battery-staple''"
    by (simp add: to_str_def slice_to_def)
  ultimately show ?thesis by simp
qed

theorem to_str_joined_witness:
  "last_result ((init_default [] 0)\<lparr>last_result := Some [Word ''horse'', Num 4660],
      separator := '', ''\<rparr>) = Some [Word ''horse'', Num 4660] \<and>
   [Word ''horse'', Num 4660] \<noteq> [] \<and>
   separator ((init_default [] 0)\<lparr>last_result := Some [Word ''horse'', Num 4660],
      separator := '', ''\<rparr>) \<noteq> [] \<and>
   to_str ((init_default [] 0)\<lparr>last_result := Some [Word ''horse'', Num 4660],
      separator := '', ''\<rparr>) = ''horse, 4660''"
  using to_str_joined [of "(init_default [] 0)\<lparr>last_result := Some [Word ''horse'', Num 4660],
      separator := '', ''\<rparr>" "[Word ''horse'', Num 4660]"]
  by (simp add: init_default_def str_int_def str_nat.simps digit_char_def)

text \<open>
  C9, as stated, fails: for the two numbers 0 and 1 the range entropy is 1 bit, which is
  also the entropy of the list taken as an alphabet of two symbols; and for 5 and 3 no
  entropy is returned at all, the range being invalid.
\<close>

theorem entropy_bits_two_numbers_counterexample:
  "length [PInt 0, PInt 1] = 2 \<and> is_number ([PInt 0, PInt 1] ! 0) \<and>
   is_number ([PInt 0, PInt 1] ! 1) \<and>
   entropy_bits [PInt 0, PInt 1] = Inr 1 \<and>
   calc_entropy_bits [PInt 0, PInt 1] = 1 \<and>
   entropy_bits [PInt 5, PInt 3] = Inl InvalidRange"
  by (simp add: entropy_bits_def calc_entropy_bits_nrange_def calc_entropy_bits_def
      entropy_of_size_def)

text \<open>
  C9, amended. For a list of exactly two numbers, the outcome of \<open>entropy_bits\<close> is that of
  the range entropy of the calculator on the two elements: \<open>InvalidRange\<close> when
  \<open>max < min\<close>, and otherwise a range entropy, which can be 1 bit, the entropy of an
  alphabet of two symbols, as it is for 0 and 1. Every other list is taken as an
  alphabet.
\<close>

theorem entropy_bits_dispatch:
  "(length lst = 2 \<and> is_number (lst ! 0) \<and> is_number (lst ! 1) \<longrightarrow>
      entropy_bits lst = calc_entropy_bits_nrange (num_val (lst ! 0)) (num_val (lst ! 1)) \<and>
      (num_val (lst ! 1) < num_val (lst ! 0) \<longrightarrow> entropy_bits lst = Inl InvalidRange) \<and>
      (num_val (lst ! 0) \<le> num_val (lst ! 1) \<longrightarrow> (\<exists>e. entropy_bits lst = Inr e))) \<and>
   (\<not> (length lst = 2 \<and> is_number (lst ! 0) \<and> is_number (lst ! 1)) \<longrightarrow>
      entropy_bits lst = Inr (calc_entropy_bits lst)) \<and>
   entropy_bits [PInt 0, PInt 1] = Inr 1"
  by (auto simp: entropy_bits_def calc_entropy_bits_nrange_def entropy_of_size_def)

theorem entropy_bits_dispatch_witness:
  "entropy_bits [PInt 3, PInt 10] = calc_entropy_bits_nrange 3 10 \<and>
   entropy_bits [PFloat 3, PInt 1] = Inl InvalidRange \<and>
   entropy_bits [PStr ''a'', PInt 10] = Inr (calc_entropy_bits [PStr ''a'', PInt 10]) \<and>
   entropy_bits [PFloat 1, PInt 2, PInt 2] = Inr (calc_entropy_bits [PFloat 1, PInt 2, PInt 2])"
  using entropy_bits_dispatch [of "[PInt 3, PInt 10]"]
    entropy_bits_dispatch [of "[PFloat 3, PInt 1]"]
    entropy_bits_dispatch [of "[PStr ''a'', PInt 10]"]
    entropy_bits_dispatch [of "[PFloat 1, PInt 2, PInt 2]"]
  by (simp add: calc_entropy_bits_nrange_def)

text \<open>
  C10. The string conversion of an empty result is the empty string (and so is that of
  the result \<open>None\<close>), and with an empty separator it is the concatenation of the textual
  forms of the tokens, nothing being cut off at the end.
\<close>

theorem to_str_empty_cases:
  "(last_result self = Some [] \<longrightarrow> to_str self = []) \<and>
   (last_result self = None \<longrightarrow> to_str self = []) \<and>
   (last_result self = Some res \<and> separator self = [] \<longrightarrow>
      to_str self = concat (map str_token res))"
  by (simp add: to_str_def slice_to_def comp_def)

theorem to_str_empty_cases_witness:
  "to_str ((init_default [] 0)\<lparr>separator := ''-''\<rparr>) = [] \<and>
   to_str ((init_default [] 0)\<lparr>last_result := Some [Word ''horse'', Num 4660],
      separator := []\<rparr>) = ''horse4660''"
  using to_str_empty_cases [of "(init_default [] 0)\<lparr>separator := ''-''\<rparr>" "[]"]
    to_str_empty_cases [of "(init_default [] 0)\<lparr>last_result := Some [Word ''horse'', Num 4660],
      separator := []\<rparr>" "[Word ''horse'', Num 4660]"]
  by (simp add: init_default_def str_int_def str_nat.simps digit_char_def)

end
